theory Spec2Isabelle
  imports Complex_Main "HOL-Library.Word"
begin

unbundle bit_operations_syntax

section \<open>The public constants of player/client_api.h\<close>

text \<open>The error codes of \<^verbatim>\<open>enum mpv_error\<close>.\<close>

definition MPV_ERROR_SUCCESS :: int where "MPV_ERROR_SUCCESS = 0"
definition MPV_ERROR_EVENT_BUFFER_FULL :: int where "MPV_ERROR_EVENT_BUFFER_FULL = - 1"
definition MPV_ERROR_INVALID_PARAMETER :: int where "MPV_ERROR_INVALID_PARAMETER = - 2"
definition MPV_ERROR_NOMEM :: int where "MPV_ERROR_NOMEM = - 3"
definition MPV_ERROR_NOT_FOUND :: int where "MPV_ERROR_NOT_FOUND = - 4"
definition MPV_ERROR_PROPERTY :: int where "MPV_ERROR_PROPERTY = - 5"
definition MPV_ERROR_PROPERTY_UNAVAILABLE :: int where "MPV_ERROR_PROPERTY_UNAVAILABLE = - 6"
definition MPV_ERROR_UNINITIALIZED :: int where "MPV_ERROR_UNINITIALIZED = - 7"

datatype mpv_format = MPV_FORMAT_NONE | MPV_FORMAT_STRING | MPV_FORMAT_OSD_STRING

datatype mpv_event =
    MPV_EVENT_NONE
  | MPV_EVENT_OK
  | MPV_EVENT_ERROR
  | MPV_EVENT_SHUTDOWN
  | MPV_EVENT_LOG_MESSAGE
  | MPV_EVENT_TICK
  | MPV_EVENT_PROPERTY
  | MPV_EVENT_START_FILE
  | MPV_EVENT_END_FILE
  | MPV_EVENT_PLAYBACK_START
  | MPV_EVENT_TRACKS_CHANGED
  | MPV_EVENT_TRACK_SWITCHED
  | MPV_EVENT_IDLE
  | MPV_EVENT_PAUSE
  | MPV_EVENT_UNPAUSE
  | MPV_EVENT_SCRIPT_INPUT_DISPATCH

text \<open>The integer value of each enumerator, as the header assigns it.\<close>

fun event_num :: "mpv_event \<Rightarrow> nat" where
  "event_num MPV_EVENT_NONE = 0"
| "event_num MPV_EVENT_OK = 1"
| "event_num MPV_EVENT_ERROR = 2"
| "event_num MPV_EVENT_SHUTDOWN = 3"
| "event_num MPV_EVENT_LOG_MESSAGE = 4"
| "event_num MPV_EVENT_TICK = 5"
| "event_num MPV_EVENT_PROPERTY = 6"
| "event_num MPV_EVENT_START_FILE = 7"
| "event_num MPV_EVENT_END_FILE = 8"
| "event_num MPV_EVENT_PLAYBACK_START = 9"
| "event_num MPV_EVENT_TRACKS_CHANGED = 10"
| "event_num MPV_EVENT_TRACK_SWITCHED = 11"
| "event_num MPV_EVENT_IDLE = 12"
| "event_num MPV_EVENT_PAUSE = 13"
| "event_num MPV_EVENT_UNPAUSE = 14"
| "event_num MPV_EVENT_SCRIPT_INPUT_DISPATCH = 15"

text \<open>\<^verbatim>\<open>event_table\<close> and \<^verbatim>\<open>mpv_event_name\<close>: every enumerator has an entry.\<close>

fun mpv_event_name :: "mpv_event \<Rightarrow> string option" where
  "mpv_event_name MPV_EVENT_NONE = Some ''none''"
| "mpv_event_name MPV_EVENT_OK = Some ''ok''"
| "mpv_event_name MPV_EVENT_ERROR = Some ''error''"
| "mpv_event_name MPV_EVENT_SHUTDOWN = Some ''shutdown''"
| "mpv_event_name MPV_EVENT_LOG_MESSAGE = Some ''log-message''"
| "mpv_event_name MPV_EVENT_TICK = Some ''tick''"
| "mpv_event_name MPV_EVENT_PROPERTY = Some ''property''"
| "mpv_event_name MPV_EVENT_START_FILE = Some ''start-file''"
| "mpv_event_name MPV_EVENT_END_FILE = Some ''end-file''"
| "mpv_event_name MPV_EVENT_PLAYBACK_START = Some ''playback-start''"
| "mpv_event_name MPV_EVENT_TRACKS_CHANGED = Some ''tracks-changed''"
| "mpv_event_name MPV_EVENT_TRACK_SWITCHED = Some ''track-switched''"
| "mpv_event_name MPV_EVENT_IDLE = Some ''idle''"
| "mpv_event_name MPV_EVENT_PAUSE = Some ''pause''"
| "mpv_event_name MPV_EVENT_UNPAUSE = Some ''unpause''"
| "mpv_event_name MPV_EVENT_SCRIPT_INPUT_DISPATCH = Some ''script-input-dispatch''"

section \<open>Event records and their payloads\<close>

text \<open>
  Modelled from the spec: the log levels of the log buffer (common/msg.h is not among the
  sources). The spec lists the level names fatal, error, warn, info, status, v, debug,
  trace; \<^verbatim>\<open>mp_log_levels\<close> maps a level to its name.
\<close>

datatype msgl =
  MSGL_FATAL | MSGL_ERR | MSGL_WARN | MSGL_INFO | MSGL_STATUS | MSGL_V | MSGL_DEBUG | MSGL_TRACE

fun mp_log_levels :: "msgl \<Rightarrow> string" where
  "mp_log_levels MSGL_FATAL = ''fatal''"
| "mp_log_levels MSGL_ERR = ''error''"
| "mp_log_levels MSGL_WARN = ''warn''"
| "mp_log_levels MSGL_INFO = ''info''"
| "mp_log_levels MSGL_STATUS = ''status''"
| "mp_log_levels MSGL_V = ''v''"
| "mp_log_levels MSGL_DEBUG = ''debug''"
| "mp_log_levels MSGL_TRACE = ''trace''"

fun msgl_num :: "msgl \<Rightarrow> int" where
  "msgl_num MSGL_FATAL = 0"
| "msgl_num MSGL_ERR = 1"
| "msgl_num MSGL_WARN = 2"
| "msgl_num MSGL_INFO = 3"
| "msgl_num MSGL_STATUS = 4"
| "msgl_num MSGL_V = 5"
| "msgl_num MSGL_DEBUG = 6"
| "msgl_num MSGL_TRACE = 7"

text \<open>
  The \<^verbatim>\<open>void *data\<close> of an event. A payload value stands for the allocation it points
  to together with everything that allocation owns: \<open>NULL\<close>, a pointer handed in by the
  engine (\<open>Opaque\<close>, identified by its address), a \<^verbatim>\<open>struct mpv_event_property\<close>
  (name, format, value string or NULL) or a \<^verbatim>\<open>struct mpv_event_log_message\<close>
  (prefix, level name, text).
\<close>

datatype payload =
    NULL
  | Opaque nat
  | Event_property string mpv_format "string option"
  | Event_log_message string string string

text \<open>\<^verbatim>\<open>struct mpv_event_data\<close>; \<open>in_reply_to\<close> is an \<^verbatim>\<open>int64_t\<close>.\<close>

record mpv_event_data =
  in_reply_to :: int
  event_id :: mpv_event
  error :: int
  data :: payload

text \<open>The zero-initialised record \<^verbatim>\<open>(mpv_event_data){0}\<close>.\<close>

definition zero_event :: mpv_event_data where
  "zero_event = \<lparr> in_reply_to = 0, event_id = MPV_EVENT_NONE, error = 0, data = NULL \<rparr>"

text \<open>
  \<^verbatim>\<open>sizeof(struct mpv_event_data)\<close>: an \<^verbatim>\<open>int64_t\<close>, two \<^verbatim>\<open>int\<close>s and a pointer,
  24 bytes on an LP64 target.
\<close>

definition sizeof_event :: nat where
  "sizeof_event = 24"

text \<open>
  \<^verbatim>\<open>talloc_free(p)\<close> releases \<open>p\<close> and is a no-operation on NULL. Every function that
  frees returns the list of the payloads it has freed, in order.
\<close>

definition talloc_free :: "payload \<Rightarrow> payload list" where
  "talloc_free p = (if p = NULL then [] else [p])"

text \<open>
  \<^verbatim>\<open>talloc_steal(event, p)\<close> makes \<open>p\<close> a child of the event; the children of the
  scratch event are kept as a list. Stealing NULL does nothing.
\<close>

definition talloc_steal :: "payload list \<Rightarrow> payload \<Rightarrow> payload list" where
  "talloc_steal children p = (if p = NULL then children else children @ [p])"

section \<open>The ring buffer and the log buffer\<close>

text \<open>
  Modelled from the spec: the byte ring of misc/ring.h, which is not among the sources.
  The spec gives \<open>new(capacity)\<close>, \<open>available()\<close>, \<open>buffered()\<close>, \<open>write(bytes, n)\<close>
  and \<open>read(bytes, n)\<close>, the last two returning the number of bytes actually written or
  read. The ring only ever carries whole event records here, so its content is the list of
  the buffered records, oldest first, and its size is counted in bytes. A write that does
  not fit stores as many bytes as are free and says so in its result; the callers abort on
  it, so the partial record is not kept in the model.
\<close>

record mp_ring =
  ring_size :: nat
  ring_buf :: "mpv_event_data list"

definition mp_ring_new :: "nat \<Rightarrow> mp_ring" where
  "mp_ring_new sz = \<lparr> ring_size = sz, ring_buf = [] \<rparr>"

definition mp_ring_buffered :: "mp_ring \<Rightarrow> nat" where
  "mp_ring_buffered r = length (ring_buf r) * sizeof_event"

definition mp_ring_available :: "mp_ring \<Rightarrow> nat" where
  "mp_ring_available r = ring_size r - mp_ring_buffered r"

definition mp_ring_write :: "mp_ring \<Rightarrow> mpv_event_data \<Rightarrow> mp_ring \<times> nat" where
  "mp_ring_write r event =
     (if sizeof_event \<le> mp_ring_available r
      then (r\<lparr>ring_buf := ring_buf r @ [event]\<rparr>, sizeof_event)
      else (r, mp_ring_available r))"

text \<open>Reading into \<open>dst\<close>: with nothing buffered, no byte is read and \<open>dst\<close> is untouched.\<close>

definition mp_ring_read :: "mp_ring \<Rightarrow> mpv_event_data \<Rightarrow> mp_ring \<times> nat \<times> mpv_event_data" where
  "mp_ring_read r dst =
     (case ring_buf r of
        [] \<Rightarrow> (r, 0, dst)
      | e # es \<Rightarrow> (r\<lparr>ring_buf := es\<rparr>, sizeof_event, e))"

text \<open>
  Modelled from the spec: the log buffer of common/msg_control.h, which is not among the
  sources. The spec gives \<open>new(global, capacity, level)\<close>, \<open>read()\<close> returning a
  \<open>{prefix, level, text}\<close> entry, and \<open>destroy()\<close>. The buffer is the list of its pending
  entries, oldest first; \<open>read\<close> takes the oldest entry, or returns NULL (\<open>None\<close>).
\<close>

record mp_log_buffer_entry =
  prefix :: string
  level :: msgl
  text_of :: string

type_synonym mp_log_buffer = "mp_log_buffer_entry list"

definition mp_msg_log_buffer_new :: "nat \<Rightarrow> int \<Rightarrow> mp_log_buffer" where
  "mp_msg_log_buffer_new capacity lev = []"

definition mp_msg_log_buffer_read ::
  "mp_log_buffer \<Rightarrow> mp_log_buffer \<times> mp_log_buffer_entry option" where
  "mp_msg_log_buffer_read b = (case b of [] \<Rightarrow> ([], None) | e # es \<Rightarrow> (es, Some e))"

section \<open>The client handle\<close>

text \<open>
  \<^verbatim>\<open>struct mpv_handle\<close>. The mutex is not a field: every function below is one critical
  section of it. What the handle does to the outside is recorded in the handle:
  \<open>log_lines\<close> are the lines written to \<^verbatim>\<open>ctx->log\<close>, \<open>wakeup_signals\<close> counts the
  \<^verbatim>\<open>pthread_cond_signal\<close> calls on \<^verbatim>\<open>ctx->wakeup\<close>, and \<open>wakeup_cb_calls\<close> lists the
  calls of the wakeup callback (the callback and its argument). \<open>cur_event_children\<close> are
  the talloc children of \<^verbatim>\<open>ctx->cur_event\<close>.
\<close>

record mpv_handle =
  name :: string
  log_lines :: "string list"
  cur_event :: mpv_event_data
  cur_event_children :: "payload list"
  wakeup_signals :: nat
  alloc_reply_id :: "64 word"
  event_mask :: "64 word"
  queued_wakeup :: bool
  shutdown :: bool
  choke_warning :: bool
  wakeup_cb :: "nat option"
  wakeup_cb_ctx :: nat
  wakeup_cb_calls :: "(nat \<times> nat) list"
  events :: mp_ring
  max_events :: int
  reserved_events :: int
  messages :: "mp_log_buffer option"
  messages_level :: int

text \<open>The two ways the process dies: \<^verbatim>\<open>abort()\<close> and a failed \<^verbatim>\<open>assert\<close>.\<close>

datatype fatal = Abort | Assert_failed

text \<open>
  The handle that \<^verbatim>\<open>mp_new_client\<close> builds with its designated initialiser: the fields
  not named there are zero.
\<close>

definition new_client_handle :: "string \<Rightarrow> mpv_handle" where
  "new_client_handle unique_name =
     (let num_events = 1000 in
      \<lparr> name = unique_name,
        log_lines = [],
        cur_event = zero_event,
        cur_event_children = [],
        wakeup_signals = 0,
        alloc_reply_id = 0,
        event_mask = (- 1) AND NOT (push_bit (event_num MPV_EVENT_TICK) 1),
        queued_wakeup = False,
        shutdown = False,
        choke_warning = False,
        wakeup_cb = None,
        wakeup_cb_ctx = 0,
        wakeup_cb_calls = [],
        events = mp_ring_new (num_events * sizeof_event),
        max_events = int num_events,
        reserved_events = 0,
        messages = None,
        messages_level = 0 \<rparr>)"

definition wakeup_client :: "mpv_handle \<Rightarrow> mpv_handle" where
  "wakeup_client ctx =
     (let ctx1 = ctx\<lparr>wakeup_signals := Suc (wakeup_signals ctx)\<rparr> in
      case wakeup_cb ctx1 of
        None \<Rightarrow> ctx1
      | Some cb \<Rightarrow> ctx1\<lparr>wakeup_cb_calls := wakeup_cb_calls ctx1 @ [(cb, wakeup_cb_ctx ctx1)]\<rparr>)"

definition mpv_set_wakeup_callback :: "mpv_handle \<Rightarrow> nat option \<Rightarrow> nat \<Rightarrow> mpv_handle" where
  "mpv_set_wakeup_callback ctx cb d = ctx\<lparr>wakeup_cb := cb, wakeup_cb_ctx := d\<rparr>"

text \<open>
  \<^verbatim>\<open>reserve_reply\<close>: the result is an \<^verbatim>\<open>int64_t\<close>, so the incremented 64-bit counter is
  read as a two's complement value.
\<close>

definition reserve_reply :: "mpv_handle \<Rightarrow> mpv_handle \<times> int" where
  "reserve_reply ctx =
     (if reserved_events ctx < max_events ctx
      then (let ctx1 = ctx\<lparr>reserved_events := reserved_events ctx + 1\<rparr>;
                ctx2 = ctx1\<lparr>alloc_reply_id := alloc_reply_id ctx1 + 1\<rparr>
            in (ctx2, sint (alloc_reply_id ctx2)))
      else (ctx, MPV_ERROR_EVENT_BUFFER_FULL))"

definition choke_line :: string where
  "choke_line = ''Too many events queued.''"

definition send_event :: "mpv_handle \<Rightarrow> mpv_event_data \<Rightarrow> fatal + (mpv_handle \<times> int)" where
  "send_event ctx event =
     (if event_mask ctx AND push_bit (event_num (event_id event)) 1 = 0
      then Inr (ctx, 0)
      else
        let num_events = int (mp_ring_available (events ctx) div sizeof_event) in
        case (if num_events > reserved_events ctx
              then (case mp_ring_write (events ctx) event of
                      (ring', r) \<Rightarrow>
                        if r \<noteq> sizeof_event then Inl Abort
                        else Inr (wakeup_client (ctx\<lparr>events := ring'\<rparr>), r))
              else Inr (ctx, 0)) of
          Inl f \<Rightarrow> Inl f
        | Inr (ctx1, r) \<Rightarrow>
            let ctx2 = (if r = 0 \<and> \<not> choke_warning ctx1
                        then ctx1\<lparr>log_lines := log_lines ctx1 @ [choke_line],
                                  choke_warning := True\<rparr>
                        else ctx1)
            in Inr (ctx2, if r \<noteq> 0 then 0 else - 1))"

text \<open>\<^verbatim>\<open>send_reply\<close>: the parameter \<open>reply_id\<close> is not used by the body.\<close>

definition send_reply :: "mpv_handle \<Rightarrow> int \<Rightarrow> mpv_event_data \<Rightarrow> fatal + mpv_handle" where
  "send_reply ctx reply_id event =
     (if \<not> reserved_events ctx > 0 then Inl Assert_failed
      else
        let ctx1 = ctx\<lparr>reserved_events := reserved_events ctx - 1\<rparr> in
        case mp_ring_write (events ctx1) event of
          (ring', r) \<Rightarrow>
            if r \<noteq> sizeof_event then Inl Abort
            else Inr (wakeup_client (ctx1\<lparr>events := ring'\<rparr>)))"

definition send_error_reply :: "mpv_handle \<Rightarrow> int \<Rightarrow> int \<Rightarrow> fatal + mpv_handle" where
  "send_error_reply ctx reply_id err =
     (let event = zero_event\<lparr>event_id := MPV_EVENT_ERROR, error := err\<rparr>
      in send_reply ctx reply_id event)"

definition mp_client_status_reply :: "mpv_handle \<Rightarrow> int \<Rightarrow> int \<Rightarrow> fatal + mpv_handle" where
  "mp_client_status_reply ctx reply_id status =
     (if status < 0 then send_error_reply ctx reply_id status
      else
        let reply = zero_event\<lparr>event_id := MPV_EVENT_OK\<rparr>
        in send_reply ctx reply_id reply)"

definition mpv_request_event :: "mpv_handle \<Rightarrow> mpv_event \<Rightarrow> int \<Rightarrow> mpv_handle \<times> int" where
  "mpv_request_event ctx event enable =
     (if mpv_event_name event = None \<or> enable < 0 \<or> enable > 1
      then (ctx, MPV_ERROR_INVALID_PARAMETER)
      else
        let bit = push_bit (event_num event) 1 in
        (ctx\<lparr>event_mask := (if enable \<noteq> 0 then event_mask ctx OR bit
                             else event_mask ctx AND NOT bit)\<rparr>, 0))"

definition mpv_wakeup :: "mpv_handle \<Rightarrow> mpv_handle" where
  "mpv_wakeup ctx = wakeup_client (ctx\<lparr>queued_wakeup := True\<rparr>)"

text \<open>
  \<^verbatim>\<open>mpv_request_log_messages\<close>: the loop over \<^verbatim>\<open>mp_log_levels\<close> finds the first level
  with the name \<open>min_level\<close>.
\<close>

definition msgl_all :: "msgl list" where
  "msgl_all = [MSGL_FATAL, MSGL_ERR, MSGL_WARN, MSGL_INFO, MSGL_STATUS, MSGL_V, MSGL_DEBUG,
               MSGL_TRACE]"

definition mpv_request_log_messages :: "mpv_handle \<Rightarrow> string \<Rightarrow> mpv_handle \<times> int" where
  "mpv_request_log_messages ctx min_level =
     (let lev = (case find (\<lambda>n. mp_log_levels n = min_level) msgl_all of
                   None \<Rightarrow> - 1
                 | Some n \<Rightarrow> msgl_num n)
      in if lev < 0 \<and> min_level \<noteq> ''no'' then (ctx, MPV_ERROR_INVALID_PARAMETER)
         else
           let ctx1 = (if messages ctx = None then ctx\<lparr>messages_level := - 1\<rparr> else ctx);
               ctx2 = (if messages_level ctx1 \<noteq> lev
                       then ctx1\<lparr>messages := (if lev \<ge> 0
                                                 then Some (mp_msg_log_buffer_new 1000 lev)
                                                 else None),
                                 messages_level := lev\<rparr>
                       else ctx1)
           in (ctx2, 0))"

section \<open>Waiting for an event\<close>

text \<open>
  \<^verbatim>\<open>mpv_wait_event\<close> in three parts. \<open>wait_event_begin\<close> is what the function does
  before its loop: it clears the scratch event and frees its children. \<open>wait_event_body\<close>
  is one pass through the body of \<^verbatim>\<open>while (1)\<close>, which leaves the loop (\<open>Break\<close>),
  reaches \<^verbatim>\<open>pthread_cond_timedwait\<close> (\<open>Timedwait\<close>) or aborts (\<open>Died\<close>).
\<close>

datatype loop_exit = Break mpv_handle | Timedwait mpv_handle | Died fatal

definition wait_event_begin :: "mpv_handle \<Rightarrow> mpv_handle \<times> payload list" where
  "wait_event_begin ctx =
     (ctx\<lparr>cur_event := zero_event, cur_event_children := []\<rparr>, cur_event_children ctx)"

definition wait_event_body :: "mpv_handle \<Rightarrow> real \<Rightarrow> loop_exit" where
  "wait_event_body ctx timeout =
     (if mp_ring_buffered (events ctx) \<noteq> 0 then
        (case mp_ring_read (events ctx) (cur_event ctx) of
           (ring', r, event) \<Rightarrow>
             if r \<noteq> sizeof_event then Died Abort
             else Break (ctx\<lparr>events := ring',
                              cur_event := event,
                              cur_event_children :=
                                talloc_steal (cur_event_children ctx) (data event)\<rparr>))
      else if shutdown ctx then
        Break (ctx\<lparr>cur_event := (cur_event ctx)\<lparr>event_id := MPV_EVENT_SHUTDOWN\<rparr>\<rparr>)
      else
        (case (case messages ctx of
                 None \<Rightarrow> (ctx, None)
               | Some b \<Rightarrow>
                   (case mp_msg_log_buffer_read b of
                      (b', msg) \<Rightarrow> (ctx\<lparr>messages := Some b'\<rparr>, msg))) of
           (ctx1, Some msg) \<Rightarrow>
             let cmsg = Event_log_message (prefix msg) (mp_log_levels (level msg)) (text_of msg)
             in Break (ctx1\<lparr>cur_event := (cur_event ctx1)\<lparr>event_id := MPV_EVENT_LOG_MESSAGE,
                                                             data := cmsg\<rparr>,
                               cur_event_children := cur_event_children ctx1 @ [cmsg]\<rparr>)
         | (ctx1, None) \<Rightarrow>
             if queued_wakeup ctx1 then Break ctx1
             else if timeout \<le> 0 then Break ctx1
             else Timedwait ctx1))"

text \<open>
  The loop. While the caller sits in \<^verbatim>\<open>pthread_cond_timedwait\<close> the mutex is released and
  other threads change the handle; the wait ends with a signal, at the deadline or
  spuriously. The environment \<open>env\<close> lists, for each wait in turn, what the other threads
  have done to the handle by the time the wait ends. The result is \<open>None\<close> when the
  environment is used up and the caller still waits: the call has not returned.
\<close>

fun wait_event_loop ::
  "mpv_handle \<Rightarrow> real \<Rightarrow> (mpv_handle \<Rightarrow> mpv_handle) list \<Rightarrow> (fatal + mpv_handle) option" where
  "wait_event_loop ctx timeout [] =
     (case wait_event_body ctx timeout of
        Break ctx' \<Rightarrow> Some (Inr ctx')
      | Died f \<Rightarrow> Some (Inl f)
      | Timedwait ctx' \<Rightarrow> None)"
| "wait_event_loop ctx timeout (other # env) =
     (case wait_event_body ctx timeout of
        Break ctx' \<Rightarrow> Some (Inr ctx')
      | Died f \<Rightarrow> Some (Inl f)
      | Timedwait ctx' \<Rightarrow> wait_event_loop (other ctx') timeout env)"

text \<open>
  The whole call. The event returned is the scratch event \<open>cur_event\<close> of the handle
  returned; the second component lists what \<^verbatim>\<open>talloc_free_children\<close> has freed.
\<close>

definition mpv_wait_event ::
  "mpv_handle \<Rightarrow> real \<Rightarrow> (mpv_handle \<Rightarrow> mpv_handle) list
     \<Rightarrow> (fatal + (mpv_handle \<times> payload list)) option" where
  "mpv_wait_event ctx timeout env =
     (case wait_event_begin ctx of
        (ctx0, freed) \<Rightarrow>
          (case wait_event_loop ctx0 timeout env of
             None \<Rightarrow> None
           | Some (Inl f) \<Rightarrow> Some (Inl f)
           | Some (Inr ctx1) \<Rightarrow> Some (Inr (ctx1\<lparr>queued_wakeup := False\<rparr>, freed))))"

section \<open>The states of a handle\<close>

text \<open>
  The states a handle goes through: it is built by \<^verbatim>\<open>mp_new_client\<close>, and every
  critical section of its mutex takes it to its next state. Two steps are taken by code
  outside the sources: the engine's teardown sets \<open>shutdown\<close>, and the logger appends
  entries to the log buffer.
\<close>

inductive reachable :: "mpv_handle \<Rightarrow> bool" where
  created: "reachable (new_client_handle unique_name)"
| set_wakeup_callback: "reachable ctx \<Longrightarrow> reachable (mpv_set_wakeup_callback ctx cb d)"
| reserved: "reachable ctx \<Longrightarrow> reachable (fst (reserve_reply ctx))"
| sent_event: "reachable ctx \<Longrightarrow> send_event ctx event = Inr (ctx', r) \<Longrightarrow> reachable ctx'"
| sent_reply: "reachable ctx \<Longrightarrow> send_reply ctx reply_id event = Inr ctx' \<Longrightarrow> reachable ctx'"
| requested_event: "reachable ctx \<Longrightarrow> reachable (fst (mpv_request_event ctx event enable))"
| requested_log: "reachable ctx \<Longrightarrow> reachable (fst (mpv_request_log_messages ctx min_level))"
| woken: "reachable ctx \<Longrightarrow> reachable (mpv_wakeup ctx)"
| wait_begun: "reachable ctx \<Longrightarrow> reachable (fst (wait_event_begin ctx))"
| wait_left: "reachable ctx \<Longrightarrow> wait_event_body ctx timeout = Break ctx'
                \<Longrightarrow> reachable (ctx'\<lparr>queued_wakeup := False\<rparr>)"
| shut_down: "reachable ctx \<Longrightarrow> reachable (ctx\<lparr>shutdown := True\<rparr>)"
| logged: "reachable ctx \<Longrightarrow> messages ctx = Some b
             \<Longrightarrow> reachable (ctx\<lparr>messages := Some (b @ [entry])\<rparr>)"

text \<open>What holds in every state of a handle.\<close>

definition handle_inv :: "mpv_handle \<Rightarrow> bool" where
  "handle_inv ctx \<longleftrightarrow>
     max_events ctx = 1000
     \<and> 0 \<le> reserved_events ctx
     \<and> reserved_events ctx \<le> max_events ctx
     \<and> ring_size (events ctx) = 1000 * sizeof_event
     \<and> length (ring_buf (events ctx)) \<le> 1000
     \<and> count_list (log_lines ctx) choke_line \<le> 1
     \<and> (choke_warning ctx \<or> choke_line \<notin> set (log_lines ctx))"

text \<open>
  The mask gate of a handle for the kind \<open>K\<close>: the mask bit of \<open>K\<close> is clear and the
  ring holds no record of kind \<open>K\<close>.
\<close>

definition mask_gated :: "mpv_event \<Rightarrow> mpv_handle \<Rightarrow> bool" where
  "mask_gated K ctx \<longleftrightarrow>
     \<not> bit (event_mask ctx) (event_num K)
     \<and> (\<forall>e\<in>set (ring_buf (events ctx)). event_id e \<noteq> K)"

text \<open>
  What a \<^verbatim>\<open>send_event\<close> of another thread does to the handle while the caller of
  \<^verbatim>\<open>mpv_wait_event\<close> waits (an element of the environment of \<open>wait_event_loop\<close>).
  Where \<^verbatim>\<open>send_event\<close> aborts, the process is gone and the handle is left as it is.
\<close>

definition sent_by_other :: "mpv_event_data \<Rightarrow> mpv_handle \<Rightarrow> mpv_handle" where
  "sent_by_other event ctx =
     (case send_event ctx event of Inr (ctx', r) \<Rightarrow> ctx' | Inl f \<Rightarrow> ctx)"

section \<open>The client registry\<close>

text \<open>
  \<^verbatim>\<open>struct mp_client_api\<close> holds the array \<^verbatim>\<open>clients\<close> of \<^verbatim>\<open>num_clients\<close> handle
  pointers. The registry is the list of the handles pointed to, and a handle pointer is
  the position of the handle in that list.
\<close>

fun find_client :: "mpv_handle list \<Rightarrow> string \<Rightarrow> nat option" where
  "find_client [] nm = None"
| "find_client (c # cs) nm =
     (if name c = nm then Some 0 else map_option Suc (find_client cs nm))"

text \<open>The decimal digits that \<^verbatim>\<open>%d\<close> prints for a number that is not negative.\<close>

definition digit_char :: "nat \<Rightarrow> char" where
  "digit_char d = char_of (48 + d)"

fun show_nat :: "nat \<Rightarrow> string" where
  "show_nat n = (if n < 10 then [digit_char n] else show_nat (n div 10) @ [digit_char (n mod 10)])"

declare show_nat.simps [simp del]

text \<open>\<^verbatim>\<open>talloc_asprintf(NULL, "%s%d", name, n)\<close>.\<close>

definition asprintf_sd :: "string \<Rightarrow> nat \<Rightarrow> string" where
  "asprintf_sd nm n = nm @ show_nat n"

text \<open>
  The loop \<^verbatim>\<open>for (int n = 2; n < 1000; n++)\<close> of \<^verbatim>\<open>mp_new_client\<close>, from \<open>n\<close> on: the
  first name that is free, or NULL.
\<close>

function unique_name_loop :: "mpv_handle list \<Rightarrow> string \<Rightarrow> nat \<Rightarrow> string option" where
  "unique_name_loop clients nm n =
     (if n < 1000
      then (let unique_name = asprintf_sd nm n in
            if find_client clients unique_name = None then Some unique_name
            else unique_name_loop clients nm (n + 1))
      else None)"
  by pat_completeness auto
termination
  by (relation "measure (\<lambda>(clients, nm, n). 1000 - n)") auto

declare unique_name_loop.simps [simp del]

text \<open>The result is the new registry and the pointer to the new client, or NULL.\<close>

definition mp_new_client :: "mpv_handle list \<Rightarrow> string \<Rightarrow> mpv_handle list \<times> nat option" where
  "mp_new_client clients nm =
     (let unique_name = (if find_client clients nm \<noteq> None
                         then unique_name_loop clients nm 2
                         else None)
      in if find_client clients nm \<noteq> None \<and> unique_name = None then (clients, None)
         else
           let unique_name' = (case unique_name of None \<Rightarrow> nm | Some u \<Rightarrow> u);
               client = new_client_handle unique_name'
           in (clients @ [client], Some (length clients)))"

definition mp_clients_num :: "mpv_handle list \<Rightarrow> nat" where
  "mp_clients_num clients = length clients"

text \<open>
  \<^verbatim>\<open>mpv_destroy\<close>: the handle is taken out of the array, the events still buffered are
  read and their payloads freed, and the handle is freed with all it owns (the children of
  its scratch event among it). A pointer that is not in the array fails the final
  \<^verbatim>\<open>assert(!ctx)\<close>. Closing the log buffer, destroying the mutex and the condition
  variable and waking the input loop change nothing that is kept here.
\<close>

definition mpv_destroy :: "mpv_handle list \<Rightarrow> nat \<Rightarrow> fatal + (mpv_handle list \<times> payload list)" where
  "mpv_destroy clients n =
     (if n < length clients
      then (let ctx = clients ! n in
            Inr (take n clients @ drop (Suc n) clients,
                 concat (map (\<lambda>event. talloc_free (data event)) (ring_buf (events ctx)))
                   @ cur_event_children ctx))
      else Inl Assert_failed)"

text \<open>The loop of \<^verbatim>\<open>mp_client_broadcast_event\<close> over the array.\<close>

fun broadcast_loop :: "mpv_handle list \<Rightarrow> mpv_event_data \<Rightarrow> fatal + mpv_handle list" where
  "broadcast_loop [] event_data = Inr []"
| "broadcast_loop (c # cs) event_data =
     (case send_event c event_data of
        Inl f \<Rightarrow> Inl f
      | Inr (c', r) \<Rightarrow>
          (case broadcast_loop cs event_data of
             Inl f \<Rightarrow> Inl f
           | Inr cs' \<Rightarrow> Inr (c' # cs')))"

text \<open>The result is the new registry and what the call has freed.\<close>

definition mp_client_broadcast_event ::
  "mpv_handle list \<Rightarrow> mpv_event \<Rightarrow> payload \<Rightarrow> fatal + (mpv_handle list \<times> payload list)" where
  "mp_client_broadcast_event clients event d =
     (let event_data = zero_event\<lparr>event_id := event, data := d\<rparr> in
      case broadcast_loop clients event_data of
        Inl f \<Rightarrow> Inl f
      | Inr clients' \<Rightarrow> Inr (clients', talloc_free d))"

text \<open>The result is the new registry, the return value and what the call has freed.\<close>

definition mp_client_send_event ::
  "mpv_handle list \<Rightarrow> string \<Rightarrow> mpv_event \<Rightarrow> payload
     \<Rightarrow> fatal + (mpv_handle list \<times> int \<times> payload list)" where
  "mp_client_send_event clients client_name event d =
     (let event_data = zero_event\<lparr>event_id := event, data := d\<rparr> in
      case find_client clients client_name of
        Some n \<Rightarrow>
          (case send_event (clients ! n) event_data of
             Inl f \<Rightarrow> Inl f
           | Inr (ctx', r) \<Rightarrow> Inr (clients[n := ctx'], r, []))
      | None \<Rightarrow> Inr (clients, - 1, talloc_free d))"

text \<open>
  The states of the registry: empty after \<^verbatim>\<open>mp_clients_init\<close>; clients are added and
  destroyed; a registered handle changes state, its name being immutable.
\<close>

inductive registry_reachable :: "mpv_handle list \<Rightarrow> bool" where
  initial: "registry_reachable []"
| added: "registry_reachable clients \<Longrightarrow> registry_reachable (fst (mp_new_client clients nm))"
| destroyed: "registry_reachable clients \<Longrightarrow> mpv_destroy clients n = Inr (clients', freed)
                \<Longrightarrow> registry_reachable clients'"
| changed: "registry_reachable clients \<Longrightarrow> n < length clients \<Longrightarrow> name ctx' = name (clients ! n)
              \<Longrightarrow> registry_reachable (clients[n := ctx'])"

section \<open>Requests to the engine\<close>

text \<open>
  Modelled from the spec: property access and commands, whose headers (options/m_property.h,
  input/input.h, command.h) are not among the sources. The spec gives the verbs GET_STRING
  and PRINT and the statuses OK, ERROR, UNAVAILABLE, NOT_IMPLEMENTED and UNKNOWN of
  \<open>property_do\<close>. \<open>M_PROPERTY_ACTION n\<close> is the verb with number \<open>n\<close> (the
  \<^verbatim>\<open>cmd\<close> field of a \<^verbatim>\<open>setproperty_request\<close> is never assigned and stays 0), and
  \<open>M_PROPERTY_STATUS n\<close> is any other status. A parsed command is the list of its words;
  NULL (\<open>None\<close>) is what the parser returns for input that does not parse.
\<close>

datatype m_property_action = M_PROPERTY_GET_STRING | M_PROPERTY_PRINT | M_PROPERTY_ACTION int

datatype m_property_status =
    M_PROPERTY_OK
  | M_PROPERTY_ERROR
  | M_PROPERTY_UNAVAILABLE
  | M_PROPERTY_NOT_IMPLEMENTED
  | M_PROPERTY_UNKNOWN
  | M_PROPERTY_STATUS int

type_synonym mp_cmd = "string list"

text \<open>
  The three request structs with the callback that runs them: \<^verbatim>\<open>cmd_request\<close>
  (cmd, reply_ctx, reply_id) for \<^verbatim>\<open>cmd_fn\<close>, \<^verbatim>\<open>setproperty_request\<close>
  (name, cmd, data, reply_ctx, reply_id) for \<^verbatim>\<open>setproperty_fn\<close> and
  \<^verbatim>\<open>getproperty_request\<close> (name, format, whether data is not NULL, reply_ctx, reply_id)
  for \<^verbatim>\<open>getproperty_fn\<close>. The field \<^verbatim>\<open>status\<close> is the result of running the request;
  \<^verbatim>\<open>reply_ctx\<close> is a handle pointer or NULL.
\<close>

datatype request =
    Cmd_request mp_cmd "nat option" int
  | Setproperty_request string m_property_action "string option" "nat option" int
  | Getproperty_request string mpv_format bool "nat option" int

text \<open>\<^verbatim>\<open>*req_reply_id = reply_id\<close>, where \<open>req_reply_id\<close> points into the request.\<close>

fun set_reply_id :: "request \<Rightarrow> int \<Rightarrow> request" where
  "set_reply_id (Cmd_request cmd reply_ctx reply_id) i = Cmd_request cmd reply_ctx i"
| "set_reply_id (Setproperty_request nm cmd d reply_ctx reply_id) i =
     Setproperty_request nm cmd d reply_ctx i"
| "set_reply_id (Getproperty_request nm format has_data reply_ctx reply_id) i =
     Getproperty_request nm format has_data reply_ctx i"

text \<open>
  \<^verbatim>\<open>struct MPContext\<close>, as far as the client API uses it: the flag \<open>initialized\<close>, the
  registry, and the queue of the dispatch bridge with the requests enqueued and not yet
  run. \<open>property_do\<close> is the engine's answer to \<^verbatim>\<open>mp_property_do\<close>: for a name, a verb
  and the value passed in, the status and the string it returns.
\<close>

record MPContext =
  initialized :: bool
  clients :: "mpv_handle list"
  dispatch :: "request list"
  property_do :: "string \<Rightarrow> m_property_action \<Rightarrow> string option
                    \<Rightarrow> m_property_status \<times> string option"

text \<open>
  A handle pointer that points to no registered client is dereferenced by the source all
  the same; the embedding stops there with \<open>Dangling\<close>.
\<close>

datatype stop = Fatal fatal | Dangling

definition with_client ::
  "MPContext \<Rightarrow> nat \<Rightarrow> (mpv_handle \<Rightarrow> fatal + mpv_handle) \<Rightarrow> stop + MPContext" where
  "with_client mpctx c f =
     (if c < length (clients mpctx)
      then (case f (clients mpctx ! c) of
              Inl e \<Rightarrow> Inl (Fatal e)
            | Inr ctx' \<Rightarrow> Inr (mpctx\<lparr>clients := (clients mpctx)[c := ctx']\<rparr>))
      else Inl Dangling)"

text \<open>
  Modelled from the spec: \<^verbatim>\<open>run_command\<close> of command.h, which is not among the sources.
  What a command does to playback is outside the client API state.
\<close>

definition run_command :: "MPContext \<Rightarrow> mp_cmd \<Rightarrow> MPContext" where
  "run_command mpctx cmd = mpctx"

text \<open>
  The callbacks. Each takes the fields of its request and returns the state and the
  \<^verbatim>\<open>status\<close> it has stored in the request. \<^verbatim>\<open>cmd_fn\<close> frees the command after it has
  run.
\<close>

definition cmd_fn :: "MPContext \<Rightarrow> mp_cmd \<Rightarrow> nat option \<Rightarrow> int \<Rightarrow> stop + (MPContext \<times> int)" where
  "cmd_fn mpctx cmd reply_ctx reply_id =
     (let mpctx1 = run_command mpctx cmd;
          status = 0
      in case reply_ctx of
           None \<Rightarrow> Inr (mpctx1, status)
         | Some c \<Rightarrow>
             (case with_client mpctx1 c (\<lambda>ctx. mp_client_status_reply ctx reply_id status) of
                Inl e \<Rightarrow> Inl e
              | Inr mpctx2 \<Rightarrow> Inr (mpctx2, status)))"

fun translate_property_error :: "m_property_status \<Rightarrow> int" where
  "translate_property_error M_PROPERTY_OK = 0"
| "translate_property_error M_PROPERTY_ERROR = MPV_ERROR_PROPERTY"
| "translate_property_error M_PROPERTY_UNAVAILABLE = MPV_ERROR_PROPERTY_UNAVAILABLE"
| "translate_property_error M_PROPERTY_NOT_IMPLEMENTED = MPV_ERROR_PROPERTY"
| "translate_property_error M_PROPERTY_UNKNOWN = MPV_ERROR_NOT_FOUND"
| "translate_property_error (M_PROPERTY_STATUS n) = MPV_ERROR_PROPERTY"

definition setproperty_fn ::
  "MPContext \<Rightarrow> string \<Rightarrow> m_property_action \<Rightarrow> string option \<Rightarrow> nat option \<Rightarrow> int
     \<Rightarrow> stop + (MPContext \<times> int)" where
  "setproperty_fn mpctx nm cmd d reply_ctx reply_id =
     (let err = fst (property_do mpctx nm cmd d);
          status = translate_property_error err
      in case reply_ctx of
           None \<Rightarrow> Inr (mpctx, status)
         | Some c \<Rightarrow>
             (case with_client mpctx c (\<lambda>ctx. mp_client_status_reply ctx reply_id status) of
                Inl e \<Rightarrow> Inl e
              | Inr mpctx1 \<Rightarrow> Inr (mpctx1, status)))"

text \<open>
  \<^verbatim>\<open>property_format_to_cmd\<close> returns a verb or the negative error code; the caller
  tells them apart by the sign.
\<close>

fun property_format_to_cmd :: "mpv_format \<Rightarrow> int + m_property_action" where
  "property_format_to_cmd MPV_FORMAT_STRING = Inr M_PROPERTY_GET_STRING"
| "property_format_to_cmd MPV_FORMAT_OSD_STRING = Inr M_PROPERTY_PRINT"
| "property_format_to_cmd MPV_FORMAT_NONE = Inl MPV_ERROR_INVALID_PARAMETER"

text \<open>
  \<^verbatim>\<open>getproperty_fn\<close>: the value read goes to the caller's \<^verbatim>\<open>data\<close> when that is not
  NULL, and to the local \<^verbatim>\<open>xdata\<close> otherwise. The result is the state, the status and the
  value stored through \<^verbatim>\<open>data\<close>.
\<close>

definition getproperty_fn ::
  "MPContext \<Rightarrow> string \<Rightarrow> mpv_format \<Rightarrow> bool \<Rightarrow> nat option \<Rightarrow> int
     \<Rightarrow> stop + (MPContext \<times> int \<times> string option)" where
  "getproperty_fn mpctx nm format has_data reply_ctx reply_id =
     (let (status, val) =
            (case property_format_to_cmd format of
               Inl e \<Rightarrow> (e, None)
             | Inr cmd \<Rightarrow>
                 (case property_do mpctx nm cmd None of
                    (err, v) \<Rightarrow> (translate_property_error err, v)));
          xdata = (if has_data then None else val);
          out = (if has_data then val else None)
      in case reply_ctx of
           None \<Rightarrow> Inr (mpctx, status, out)
         | Some c \<Rightarrow>
             if status < 0
             then (case with_client mpctx c (\<lambda>ctx. send_error_reply ctx reply_id status) of
                     Inl e \<Rightarrow> Inl e
                   | Inr mpctx1 \<Rightarrow> Inr (mpctx1, status, out))
             else
               let prop = Event_property nm format xdata;
                   reply = zero_event\<lparr>event_id := MPV_EVENT_PROPERTY, data := prop\<rparr>
               in (case with_client mpctx c (\<lambda>ctx. send_reply ctx reply_id reply) of
                     Inl e \<Rightarrow> Inl e
                   | Inr mpctx1 \<Rightarrow> Inr (mpctx1, status, out)))"

text \<open>Running a request is calling its callback on it.\<close>

fun run_request :: "MPContext \<Rightarrow> request \<Rightarrow> stop + (MPContext \<times> int \<times> string option)" where
  "run_request mpctx (Cmd_request cmd reply_ctx reply_id) =
     (case cmd_fn mpctx cmd reply_ctx reply_id of
        Inl e \<Rightarrow> Inl e
      | Inr (mpctx', status) \<Rightarrow> Inr (mpctx', status, None))"
| "run_request mpctx (Setproperty_request nm cmd d reply_ctx reply_id) =
     (case setproperty_fn mpctx nm cmd d reply_ctx reply_id of
        Inl e \<Rightarrow> Inl e
      | Inr (mpctx', status) \<Rightarrow> Inr (mpctx', status, None))"
| "run_request mpctx (Getproperty_request nm format has_data reply_ctx reply_id) =
     getproperty_fn mpctx nm format has_data reply_ctx reply_id"

text \<open>
  Modelled from the spec: the dispatch bridge of the engine, which is not among the
  sources. \<open>enqueue_autofree\<close> puts a request at the end of the queue, and the engine
  thread runs the queued requests in the order submitted (\<open>mp_dispatch_queue_process\<close>).
  \<open>run\<close> blocks the caller until the engine thread has run its request exactly once;
  the requests submitted before it are run first.
\<close>

definition mp_dispatch_enqueue_autofree :: "MPContext \<Rightarrow> request \<Rightarrow> MPContext" where
  "mp_dispatch_enqueue_autofree mpctx req = mpctx\<lparr>dispatch := dispatch mpctx @ [req]\<rparr>"

fun run_requests :: "MPContext \<Rightarrow> request list \<Rightarrow> stop + MPContext" where
  "run_requests mpctx [] = Inr mpctx"
| "run_requests mpctx (req # reqs) =
     (case run_request mpctx req of
        Inl e \<Rightarrow> Inl e
      | Inr (mpctx', status, out) \<Rightarrow> run_requests mpctx' reqs)"

definition mp_dispatch_queue_process :: "MPContext \<Rightarrow> stop + MPContext" where
  "mp_dispatch_queue_process mpctx = run_requests (mpctx\<lparr>dispatch := []\<rparr>) (dispatch mpctx)"

definition mp_dispatch_run ::
  "MPContext \<Rightarrow> request \<Rightarrow> stop + (MPContext \<times> int \<times> string option)" where
  "mp_dispatch_run mpctx req =
     (case mp_dispatch_queue_process mpctx of
        Inl e \<Rightarrow> Inl e
      | Inr mpctx' \<Rightarrow> run_request mpctx' req)"

definition run_locked ::
  "MPContext \<Rightarrow> request \<Rightarrow> stop + (MPContext \<times> int \<times> string option)" where
  "run_locked mpctx req = mp_dispatch_run mpctx req"

text \<open>
  \<^verbatim>\<open>run_async\<close> for the client \<open>c\<close>. The result is the new state and the reply ID or
  error code returned. A request whose reservation fails is freed and not queued; a queued
  request is freed by the dispatch bridge after it has run.
\<close>

definition run_async :: "MPContext \<Rightarrow> nat \<Rightarrow> request \<Rightarrow> stop + (MPContext \<times> int)" where
  "run_async mpctx c req =
     (if c < length (clients mpctx)
      then (case reserve_reply (clients mpctx ! c) of
              (ctx', reply_id) \<Rightarrow>
                let mpctx1 = mpctx\<lparr>clients := (clients mpctx)[c := ctx']\<rparr> in
                if reply_id < 0 then Inr (mpctx1, reply_id)
                else Inr (mp_dispatch_enqueue_autofree mpctx1 (set_reply_id req reply_id),
                          reply_id))
      else Inl Dangling)"

section \<open>The request functions of the public interface\<close>

text \<open>
  Each function takes the engine state and the handle pointer \<open>c\<close>. The argument \<open>cmd\<close>
  of the command functions is what the parser has made of the caller's arguments.
\<close>

definition run_client_command ::
  "MPContext \<Rightarrow> nat \<Rightarrow> mp_cmd option \<Rightarrow> stop + (MPContext \<times> int)" where
  "run_client_command mpctx c cmd =
     (if \<not> initialized mpctx then Inr (mpctx, MPV_ERROR_UNINITIALIZED)
      else case cmd of
             None \<Rightarrow> Inr (mpctx, MPV_ERROR_INVALID_PARAMETER)
           | Some cm \<Rightarrow>
               (case run_locked mpctx (Cmd_request cm None 0) of
                  Inl e \<Rightarrow> Inl e
                | Inr (mpctx', status, out) \<Rightarrow> Inr (mpctx', status)))"

definition mpv_command :: "MPContext \<Rightarrow> nat \<Rightarrow> mp_cmd option \<Rightarrow> stop + (MPContext \<times> int)" where
  "mpv_command mpctx c cmd = run_client_command mpctx c cmd"

definition mpv_command_string ::
  "MPContext \<Rightarrow> nat \<Rightarrow> mp_cmd option \<Rightarrow> stop + (MPContext \<times> int)" where
  "mpv_command_string mpctx c cmd = run_client_command mpctx c cmd"

definition mpv_command_async ::
  "MPContext \<Rightarrow> nat \<Rightarrow> mp_cmd option \<Rightarrow> stop + (MPContext \<times> int)" where
  "mpv_command_async mpctx c cmd =
     (if \<not> initialized mpctx then Inr (mpctx, MPV_ERROR_UNINITIALIZED)
      else case cmd of
             None \<Rightarrow> Inr (mpctx, MPV_ERROR_INVALID_PARAMETER)
           | Some cm \<Rightarrow> run_async mpctx c (Cmd_request cm (Some c) 0))"

definition mpv_set_property ::
  "MPContext \<Rightarrow> nat \<Rightarrow> string \<Rightarrow> mpv_format \<Rightarrow> string option \<Rightarrow> stop + (MPContext \<times> int)" where
  "mpv_set_property mpctx c nm format d =
     (if \<not> initialized mpctx then Inr (mpctx, MPV_ERROR_UNINITIALIZED)
      else if format \<noteq> MPV_FORMAT_STRING then Inr (mpctx, MPV_ERROR_INVALID_PARAMETER)
      else case run_locked mpctx (Setproperty_request nm (M_PROPERTY_ACTION 0) d None 0) of
             Inl e \<Rightarrow> Inl e
           | Inr (mpctx', status, out) \<Rightarrow> Inr (mpctx', status))"

definition mpv_set_property_string ::
  "MPContext \<Rightarrow> nat \<Rightarrow> string \<Rightarrow> string option \<Rightarrow> stop + (MPContext \<times> int)" where
  "mpv_set_property_string mpctx c nm d = mpv_set_property mpctx c nm MPV_FORMAT_STRING d"

definition mpv_set_property_async ::
  "MPContext \<Rightarrow> nat \<Rightarrow> string \<Rightarrow> mpv_format \<Rightarrow> string option \<Rightarrow> stop + (MPContext \<times> int)" where
  "mpv_set_property_async mpctx c nm format d =
     (if \<not> initialized mpctx then Inr (mpctx, MPV_ERROR_UNINITIALIZED)
      else if format \<noteq> MPV_FORMAT_STRING then Inr (mpctx, MPV_ERROR_INVALID_PARAMETER)
      else run_async mpctx c (Setproperty_request nm (M_PROPERTY_ACTION 0) d (Some c) 0))"

text \<open>The result carries the value stored through \<^verbatim>\<open>data\<close>.\<close>

definition mpv_get_property ::
  "MPContext \<Rightarrow> nat \<Rightarrow> string \<Rightarrow> mpv_format \<Rightarrow> bool
     \<Rightarrow> stop + (MPContext \<times> int \<times> string option)" where
  "mpv_get_property mpctx c nm format has_data =
     (if \<not> initialized mpctx then Inr (mpctx, MPV_ERROR_UNINITIALIZED, None)
      else run_locked mpctx (Getproperty_request nm format has_data None 0))"

definition mpv_get_property_async ::
  "MPContext \<Rightarrow> nat \<Rightarrow> string \<Rightarrow> mpv_format \<Rightarrow> stop + (MPContext \<times> int)" where
  "mpv_get_property_async mpctx c nm format =
     (if \<not> initialized mpctx then Inr (mpctx, MPV_ERROR_UNINITIALIZED)
      else run_async mpctx c (Getproperty_request nm format False (Some c) 0))"

section \<open>Properties of the handle operations\<close>

lemma wakeup_client_fields [simp]:
  "events (wakeup_client ctx) = events ctx"
  "max_events (wakeup_client ctx) = max_events ctx"
  "reserved_events (wakeup_client ctx) = reserved_events ctx"
  "log_lines (wakeup_client ctx) = log_lines ctx"
  "choke_warning (wakeup_client ctx) = choke_warning ctx"
  "queued_wakeup (wakeup_client ctx) = queued_wakeup ctx"
  "alloc_reply_id (wakeup_client ctx) = alloc_reply_id ctx"
  "event_mask (wakeup_client ctx) = event_mask ctx"
  "name (wakeup_client ctx) = name ctx"
  by (simp_all add: wakeup_client_def Let_def split: option.splits)

lemma available_slots:
  "ring_size r = 1000 * sizeof_event \<Longrightarrow> length (ring_buf r) \<le> 1000
     \<Longrightarrow> mp_ring_available r div sizeof_event = 1000 - length (ring_buf r)"
  by (simp add: mp_ring_available_def mp_ring_buffered_def sizeof_event_def)

lemma available_enough:
  "ring_size r = 1000 * sizeof_event \<Longrightarrow> length (ring_buf r) < 1000
     \<Longrightarrow> sizeof_event \<le> mp_ring_available r"
  by (simp add: mp_ring_available_def mp_ring_buffered_def sizeof_event_def)

lemma handle_inv_created: "handle_inv (new_client_handle unique_name)"
  by (simp add: handle_inv_def new_client_handle_def mp_ring_new_def)

lemma send_event_inv:
  assumes "handle_inv ctx" and "send_event ctx event = Inr (ctx', r)"
  shows "handle_inv ctx'"
proof -
  have sz: "ring_size (events ctx) = 1000 * sizeof_event" and len: "length (ring_buf (events ctx)) \<le> 1000"
    using assms(1) by (simp_all add: handle_inv_def)
  note av = available_slots [OF sz len]
  show ?thesis
    using assms
    by (auto simp: send_event_def handle_inv_def Let_def mp_ring_write_def av
             split: if_splits prod.splits sum.splits)
qed

lemma send_reply_inv:
  assumes "handle_inv ctx" and "send_reply ctx reply_id event = Inr ctx'"
  shows "handle_inv ctx'"
proof -
  have sz: "ring_size (events ctx) = 1000 * sizeof_event" and len: "length (ring_buf (events ctx)) \<le> 1000"
    using assms(1) by (simp_all add: handle_inv_def)
  show ?thesis
    using assms
    by (auto simp: send_reply_def handle_inv_def Let_def mp_ring_write_def
                   mp_ring_available_def mp_ring_buffered_def sizeof_event_def
             split: if_splits prod.splits sum.splits)
qed

lemma wait_event_body_inv:
  assumes "handle_inv ctx" and "wait_event_body ctx timeout = Break ctx'"
  shows "handle_inv ctx'"
  using assms
  by (auto simp: wait_event_body_def handle_inv_def Let_def mp_ring_read_def
           split: if_splits prod.splits list.splits option.splits)

lemma reachable_inv: "reachable ctx \<Longrightarrow> handle_inv ctx"
proof (induction rule: reachable.induct)
  case (created unique_name)
  show ?case by (rule handle_inv_created)
next
  case (set_wakeup_callback ctx cb d)
  then show ?case by (simp add: handle_inv_def mpv_set_wakeup_callback_def)
next
  case (reserved ctx)
  then show ?case by (auto simp: handle_inv_def reserve_reply_def Let_def)
next
  case (sent_event ctx event ctx' r)
  then show ?case by (blast intro: send_event_inv)
next
  case (sent_reply ctx reply_id event ctx')
  then show ?case by (blast intro: send_reply_inv)
next
  case (requested_event ctx event enable)
  then show ?case by (simp add: handle_inv_def mpv_request_event_def Let_def)
next
  case (requested_log ctx min_level)
  then show ?case by (simp add: handle_inv_def mpv_request_log_messages_def Let_def)
next
  case (woken ctx)
  then show ?case by (simp add: handle_inv_def mpv_wakeup_def)
next
  case (wait_begun ctx)
  then show ?case by (simp add: handle_inv_def wait_event_begin_def)
next
  case (wait_left ctx timeout ctx')
  then have "handle_inv ctx'" by (blast intro: wait_event_body_inv)
  then show ?case by (simp add: handle_inv_def)
next
  case (shut_down ctx)
  then show ?case by (simp add: handle_inv_def)
next
  case (logged ctx b entry)
  then show ?case by (simp add: handle_inv_def)
qed

section \<open>Reply reservation\<close>

lemma send_reply_written:
  assumes "handle_inv ctx" and "0 < reserved_events ctx"
    and "length (ring_buf (events ctx)) < 1000"
  shows "send_reply ctx reply_id event =
           Inr (wakeup_client
                  (ctx\<lparr>reserved_events := reserved_events ctx - 1,
                       events := (events ctx)\<lparr>ring_buf := ring_buf (events ctx) @ [event]\<rparr>\<rparr>))"
proof -
  have sz: "ring_size (events ctx) = 1000 * sizeof_event"
    using assms(1) by (simp add: handle_inv_def)
  have fits: "sizeof_event \<le> mp_ring_available (events ctx)"
    using sz assms(3) by (rule available_enough)
  show ?thesis
    using assms(2) fits by (simp add: send_reply_def mp_ring_write_def Let_def)
qed

lemma send_reply_full:
  assumes "handle_inv ctx" and "0 < reserved_events ctx"
    and "\<not> length (ring_buf (events ctx)) < 1000"
  shows "send_reply ctx reply_id event = Inl Abort"
proof -
  have sz: "ring_size (events ctx) = 1000 * sizeof_event"
    and len: "length (ring_buf (events ctx)) \<le> 1000"
    using assms(1) by (simp_all add: handle_inv_def)
  have "mp_ring_available (events ctx) = 0"
    using sz len assms(3) by (simp add: mp_ring_available_def mp_ring_buffered_def)
  then show ?thesis
    using assms(2) by (simp add: send_reply_def mp_ring_write_def Let_def sizeof_event_def)
qed

text \<open>
  Claim C2. In every state of a handle \<open>reserved_events \<le> max_events\<close>, and
  \<open>max_events\<close> is 1000. \<^verbatim>\<open>reserve_reply\<close> increments \<open>reserved_events\<close> and the
  reply-ID counter and returns the new counter when \<open>reserved_events < max_events\<close>;
  otherwise it returns \<open>MPV_ERROR_EVENT_BUFFER_FULL\<close>, which is \<open>-1\<close>, and leaves the
  handle as it is. \<^verbatim>\<open>send_reply\<close> fails its assertion unless \<open>reserved_events > 0\<close>.
  With \<open>reserved_events > 0\<close> and room for a record in the ring it returns: it has
  decremented \<open>reserved_events\<close> by one, appended the record and signalled the wakeup;
  with \<open>reserved_events > 0\<close> and the ring full it aborts. Wherever it returns it has
  decremented \<open>reserved_events\<close> by one.
\<close>

theorem reserved_events_bounded:
  assumes "reachable ctx"
  shows "reserved_events ctx \<le> max_events ctx \<and> max_events ctx = 1000
     \<and> (reserved_events ctx < max_events ctx \<longrightarrow>
          reserve_reply ctx =
            (ctx\<lparr>reserved_events := reserved_events ctx + 1,
                 alloc_reply_id := alloc_reply_id ctx + 1\<rparr>,
             sint (alloc_reply_id ctx + 1)))
     \<and> (\<not> reserved_events ctx < max_events ctx \<longrightarrow>
          reserve_reply ctx = (ctx, MPV_ERROR_EVENT_BUFFER_FULL) \<and> MPV_ERROR_EVENT_BUFFER_FULL = - 1)
     \<and> (\<not> 0 < reserved_events ctx \<longrightarrow> send_reply ctx reply_id event = Inl Assert_failed)
     \<and> (0 < reserved_events ctx \<and> length (ring_buf (events ctx)) < 1000 \<longrightarrow>
          (\<exists>ctx'. send_reply ctx reply_id event = Inr ctx'
             \<and> reserved_events ctx' = reserved_events ctx - 1
             \<and> ring_buf (events ctx') = ring_buf (events ctx) @ [event]
             \<and> wakeup_signals ctx' = Suc (wakeup_signals ctx)
             \<and> max_events ctx' = max_events ctx
             \<and> alloc_reply_id ctx' = alloc_reply_id ctx))
     \<and> (0 < reserved_events ctx \<and> \<not> length (ring_buf (events ctx)) < 1000 \<longrightarrow>
          send_reply ctx reply_id event = Inl Abort)
     \<and> (\<forall>ctx'. send_reply ctx reply_id event = Inr ctx' \<longrightarrow>
            0 < reserved_events ctx \<and> reserved_events ctx' = reserved_events ctx - 1)"
proof -
  have inv: "handle_inv ctx" using assms by (rule reachable_inv)
  have bound: "reserved_events ctx \<le> max_events ctx" and cap: "max_events ctx = 1000"
    using inv by (simp_all add: handle_inv_def)
  have res: "reserved_events ctx < max_events ctx \<longrightarrow>
          reserve_reply ctx =
            (ctx\<lparr>reserved_events := reserved_events ctx + 1,
                 alloc_reply_id := alloc_reply_id ctx + 1\<rparr>,
             sint (alloc_reply_id ctx + 1))"
    by (simp add: reserve_reply_def Let_def)
  have full: "\<not> reserved_events ctx < max_events ctx \<longrightarrow>
          reserve_reply ctx = (ctx, MPV_ERROR_EVENT_BUFFER_FULL) \<and> MPV_ERROR_EVENT_BUFFER_FULL = - 1"
    by (simp add: reserve_reply_def MPV_ERROR_EVENT_BUFFER_FULL_def)
  have none: "\<not> 0 < reserved_events ctx \<longrightarrow> send_reply ctx reply_id event = Inl Assert_failed"
    by (simp add: send_reply_def)
  have sent: "0 < reserved_events ctx \<and> length (ring_buf (events ctx)) < 1000 \<longrightarrow>
          (\<exists>ctx'. send_reply ctx reply_id event = Inr ctx'
             \<and> reserved_events ctx' = reserved_events ctx - 1
             \<and> ring_buf (events ctx') = ring_buf (events ctx) @ [event]
             \<and> wakeup_signals ctx' = Suc (wakeup_signals ctx)
             \<and> max_events ctx' = max_events ctx
             \<and> alloc_reply_id ctx' = alloc_reply_id ctx)"
  proof
    assume a: "0 < reserved_events ctx \<and> length (ring_buf (events ctx)) < 1000"
    then have "send_reply ctx reply_id event =
           Inr (wakeup_client
                  (ctx\<lparr>reserved_events := reserved_events ctx - 1,
                       events := (events ctx)\<lparr>ring_buf := ring_buf (events ctx) @ [event]\<rparr>\<rparr>))"
      using send_reply_written [OF inv] by blast
    then show "\<exists>ctx'. send_reply ctx reply_id event = Inr ctx'
             \<and> reserved_events ctx' = reserved_events ctx - 1
             \<and> ring_buf (events ctx') = ring_buf (events ctx) @ [event]
             \<and> wakeup_signals ctx' = Suc (wakeup_signals ctx)
             \<and> max_events ctx' = max_events ctx
             \<and> alloc_reply_id ctx' = alloc_reply_id ctx"
      by (simp add: wakeup_client_def Let_def split: option.splits)
  qed
  have aborts: "0 < reserved_events ctx \<and> \<not> length (ring_buf (events ctx)) < 1000 \<longrightarrow>
          send_reply ctx reply_id event = Inl Abort"
    using send_reply_full [OF inv] by blast
  have dec: "\<forall>ctx'. send_reply ctx reply_id event = Inr ctx' \<longrightarrow>
            0 < reserved_events ctx \<and> reserved_events ctx' = reserved_events ctx - 1"
    by (auto simp: send_reply_def Let_def split: if_splits prod.splits)
  show ?thesis
    by (rule conjI [OF bound conjI [OF cap conjI [OF res conjI [OF full conjI [OF none
          conjI [OF sent conjI [OF aborts dec]]]]]]])
qed

lemma reachable_one_reserved: "reachable (fst (reserve_reply (new_client_handle ''main'')))"
  by (rule reachable.reserved) (rule reachable.created)

theorem reserved_events_bounded_witness:
  "reachable (fst (reserve_reply (new_client_handle ''main'')))
   \<and> reserved_events (fst (reserve_reply (new_client_handle ''main''))) = 1
   \<and> max_events (fst (reserve_reply (new_client_handle ''main''))) = 1000
   \<and> snd (reserve_reply (fst (reserve_reply (new_client_handle ''main'')))) = 2
   \<and> reserved_events (fst (reserve_reply (fst (reserve_reply (new_client_handle ''main''))))) = 2
   \<and> send_reply (new_client_handle ''main'') 1 zero_event = Inl Assert_failed
   \<and> (\<exists>ctx'. send_reply (fst (reserve_reply (new_client_handle ''main''))) 1
                 (zero_event\<lparr>event_id := MPV_EVENT_OK\<rparr>) = Inr ctx'
          \<and> reserved_events ctx' = 0
          \<and> ring_buf (events ctx') = [zero_event\<lparr>event_id := MPV_EVENT_OK\<rparr>]
          \<and> wakeup_signals ctx' = 1)"
proof -
  let ?h = "new_client_handle ''main''"
  let ?x = "fst (reserve_reply ?h)"
  have vals: "reserved_events ?x = 1" "ring_buf (events ?x) = []" "wakeup_signals ?x = 0"
             "max_events ?x = 1000"
    by (simp_all add: reserve_reply_def new_client_handle_def mp_ring_new_def Let_def)
  have first: "reachable ?x \<and> reserved_events ?x = 1 \<and> max_events ?x = 1000
     \<and> snd (reserve_reply ?x) = 2 \<and> reserved_events (fst (reserve_reply ?x)) = 2
     \<and> send_reply ?h 1 zero_event = Inl Assert_failed"
    using reachable_one_reserved
          reserved_events_bounded [OF reachable_one_reserved, of 1 zero_event]
          reserved_events_bounded [OF reachable.created, of "''main''" 1 zero_event]
    by (simp add: reserve_reply_def new_client_handle_def Let_def)
  have sent: "\<exists>ctx'. send_reply ?x 1 (zero_event\<lparr>event_id := MPV_EVENT_OK\<rparr>) = Inr ctx'
          \<and> reserved_events ctx' = 0
          \<and> ring_buf (events ctx') = [zero_event\<lparr>event_id := MPV_EVENT_OK\<rparr>]
          \<and> wakeup_signals ctx' = 1"
    using reserved_events_bounded [OF reachable_one_reserved, of 1
            "zero_event\<lparr>event_id := MPV_EVENT_OK\<rparr>"] vals
    by auto
  show ?thesis using first sent by blast
qed

text \<open>
  The reply IDs count up: below \<open>2 ^ 63 - 1\<close> a successful \<^verbatim>\<open>reserve_reply\<close>
  returns the counter plus one, which is the new counter.
\<close>

lemma word64_next:
  fixes w :: "64 word"
  assumes "unat w < 2 ^ 63 - 1"
  shows "unat (w + 1) = unat w + 1" and "sint (w + 1) = int (unat w) + 1"
proof -
  show u: "unat (w + 1) = unat w + 1"
    using assms by (simp add: unat_word_ariths)
  have "int (unat (w + 1)) = int (unat w) + 1"
    using u by simp
  then have "uint (w + 1) = int (unat w) + 1"
    by (simp only: uint_nat)
  moreover have "int (unat w) + 1 < 2 ^ 63"
  proof -
    have "int (unat w) < int (2 ^ 63 - 1)"
      using assms by (simp only: of_nat_less_iff)
    then show ?thesis by simp
  qed
  ultimately show "sint (w + 1) = int (unat w) + 1"
    by (simp add: sint_uint signed_take_bit_int_eq_self)
qed

lemma reserve_reply_next_id:
  assumes "reserved_events ctx < max_events ctx" and "unat (alloc_reply_id ctx) < 2 ^ 63 - 1"
  shows "snd (reserve_reply ctx) = int (unat (alloc_reply_id ctx)) + 1"
    and "unat (alloc_reply_id (fst (reserve_reply ctx))) = unat (alloc_reply_id ctx) + 1"
  using assms word64_next [of "alloc_reply_id ctx"]
  by (simp_all add: reserve_reply_def Let_def)

section \<open>Sending events\<close>

lemma mask_bit_test:
  "(w AND push_bit n 1 = 0) \<longleftrightarrow> \<not> bit w n"
  "(w AND 2 ^ n = 0) \<longleftrightarrow> \<not> bit w n" for w :: "64 word"
  using bit_iff_and_push_bit_not_eq_0 [of w n] by simp_all

lemma send_event_masked:
  "\<not> bit (event_mask ctx) (event_num (event_id event)) \<Longrightarrow> send_event ctx event = Inr (ctx, 0)"
  by (simp add: send_event_def mask_bit_test)

lemma send_event_written:
  assumes "handle_inv ctx"
    and "bit (event_mask ctx) (event_num (event_id event))"
    and "int (mp_ring_available (events ctx) div sizeof_event) > reserved_events ctx"
  shows "send_event ctx event =
           Inr (wakeup_client (ctx\<lparr>events := (events ctx)\<lparr>ring_buf := ring_buf (events ctx) @ [event]\<rparr>\<rparr>), 0)"
proof -
  have sz: "ring_size (events ctx) = 1000 * sizeof_event" and len: "length (ring_buf (events ctx)) \<le> 1000"
    and nn: "0 \<le> reserved_events ctx"
    using assms(1) by (simp_all add: handle_inv_def)
  have "length (ring_buf (events ctx)) < 1000"
    using assms(3) nn by (simp add: available_slots [OF sz len])
  then have fits: "sizeof_event \<le> mp_ring_available (events ctx)"
    using sz by (rule available_enough [rotated])
  have pos: "sizeof_event \<noteq> 0" by (simp add: sizeof_event_def)
  show ?thesis
    using assms(2,3) fits pos
    by (simp add: send_event_def mask_bit_test mp_ring_write_def Let_def)
qed

lemma send_event_dropped:
  assumes "bit (event_mask ctx) (event_num (event_id event))"
    and "\<not> int (mp_ring_available (events ctx) div sizeof_event) > reserved_events ctx"
  shows "send_event ctx event =
           Inr (if choke_warning ctx then ctx
                else ctx\<lparr>log_lines := log_lines ctx @ [choke_line], choke_warning := True\<rparr>, - 1)"
  using assms by (simp add: send_event_def mask_bit_test Let_def)

lemma reserve_reply_iterated:
  "n \<le> 1000 \<Longrightarrow>
     ((\<lambda>c. fst (reserve_reply c)) ^^ n) (new_client_handle nm) =
       (new_client_handle nm)\<lparr>alloc_reply_id := of_nat n, reserved_events := int n\<rparr>"
proof (induction n)
  case 0
  show ?case by (simp add: new_client_handle_def)
next
  case (Suc n)
  then show ?case
    by (simp add: reserve_reply_def new_client_handle_def Let_def)
qed

lemma reachable_iterated:
  "reachable (((\<lambda>c. fst (reserve_reply c)) ^^ n) (new_client_handle nm))"
  by (induction n) (simp_all add: reachable.created reachable.reserved)

text \<open>
  Claim C3. In every state of a handle \<^verbatim>\<open>send_event\<close> returns. For an event whose mask
  bit is clear it returns 0 and leaves the handle, the ring with it, as it is. Otherwise
  it appends the whole record to the ring and signals the wakeup exactly when the free
  slots \<^verbatim>\<open>mp_ring_available(events) / sizeof(event)\<close> exceed \<open>reserved_events\<close>, and
  returns 0 then; when they do not, nothing is written or signalled, it returns \<open>-1\<close>,
  and the line "Too many events queued." is logged only if \<open>choke_warning\<close> was not set.
  The log of a handle never holds that line more than once.
\<close>

theorem send_event_spec:
  assumes "reachable ctx"
  shows "\<exists>ctx' r. send_event ctx event = Inr (ctx', r)
     \<and> (\<not> bit (event_mask ctx) (event_num (event_id event)) \<longrightarrow> ctx' = ctx \<and> r = 0)
     \<and> ring_buf (events ctx') =
          (if bit (event_mask ctx) (event_num (event_id event))
              \<and> reserved_events ctx < int (mp_ring_available (events ctx) div sizeof_event)
           then ring_buf (events ctx) @ [event] else ring_buf (events ctx))
     \<and> wakeup_signals ctx' =
          (if bit (event_mask ctx) (event_num (event_id event))
              \<and> reserved_events ctx < int (mp_ring_available (events ctx) div sizeof_event)
           then Suc (wakeup_signals ctx) else wakeup_signals ctx)
     \<and> r = (if bit (event_mask ctx) (event_num (event_id event))
                \<and> \<not> reserved_events ctx < int (mp_ring_available (events ctx) div sizeof_event)
             then - 1 else 0)
     \<and> log_lines ctx' =
          (if bit (event_mask ctx) (event_num (event_id event))
              \<and> \<not> reserved_events ctx < int (mp_ring_available (events ctx) div sizeof_event)
              \<and> \<not> choke_warning ctx
           then log_lines ctx @ [choke_line] else log_lines ctx)
     \<and> count_list (log_lines ctx') choke_line \<le> 1"
proof -
  have inv: "handle_inv ctx" using assms by (rule reachable_inv)
  have once: "count_list (log_lines ctx) choke_line \<le> 1"
    and latch: "\<not> choke_warning ctx \<Longrightarrow> count_list (log_lines ctx) choke_line = 0"
    using inv by (auto simp: handle_inv_def)
  let ?on = "bit (event_mask ctx) (event_num (event_id event))"
  let ?room = "reserved_events ctx < int (mp_ring_available (events ctx) div sizeof_event)"
  consider (masked) "\<not> ?on" | (written) "?on" "?room" | (dropped) "?on" "\<not> ?room"
    by blast
  then show ?thesis
  proof cases
    case masked
    then show ?thesis using once by (simp add: send_event_masked)
  next
    case written
    then show ?thesis
      using once send_event_written [OF inv, of event]
      by (simp add: wakeup_client_def Let_def split: option.splits)
  next
    case dropped
    then show ?thesis
      using once latch send_event_dropped [of ctx event] by simp
  qed
qed

theorem send_event_spec_witness:
  "reachable (new_client_handle ''main'')
   \<and> send_event (new_client_handle ''main'') (zero_event\<lparr>event_id := MPV_EVENT_TICK\<rparr>)
       = Inr (new_client_handle ''main'', 0)
   \<and> (\<exists>ctx'. send_event (new_client_handle ''main'') (zero_event\<lparr>event_id := MPV_EVENT_IDLE\<rparr>)
                = Inr (ctx', 0)
         \<and> ring_buf (events ctx') = [zero_event\<lparr>event_id := MPV_EVENT_IDLE\<rparr>]
         \<and> wakeup_signals ctx' = 1 \<and> log_lines ctx' = [])
   \<and> reachable (((\<lambda>c. fst (reserve_reply c)) ^^ 1000) (new_client_handle ''main''))
   \<and> (\<exists>ctx'. send_event (((\<lambda>c. fst (reserve_reply c)) ^^ 1000) (new_client_handle ''main''))
                  (zero_event\<lparr>event_id := MPV_EVENT_IDLE\<rparr>) = Inr (ctx', - 1)
         \<and> ring_buf (events ctx') = [] \<and> wakeup_signals ctx' = 0
         \<and> log_lines ctx' = [choke_line])"
proof -
  let ?h = "new_client_handle ''main''"
  let ?full = "((\<lambda>c. fst (reserve_reply c)) ^^ 1000) ?h"
  have full: "?full = ?h\<lparr>alloc_reply_id := 1000, reserved_events := 1000\<rparr>"
    using reserve_reply_iterated [of 1000 "''main''"] by simp
  have tick: "\<not> bit (event_mask ?h) (event_num (event_id (zero_event\<lparr>event_id := MPV_EVENT_TICK\<rparr>)))"
    by (simp add: new_client_handle_def bit_simps)
  have idle: "bit (event_mask ?h) (event_num (event_id (zero_event\<lparr>event_id := MPV_EVENT_IDLE\<rparr>)))"
    by (simp add: new_client_handle_def bit_simps)
  have room: "reserved_events ?h < int (mp_ring_available (events ?h) div sizeof_event)"
    by (simp add: new_client_handle_def mp_ring_new_def mp_ring_available_def
                  mp_ring_buffered_def sizeof_event_def)
  have vals: "ring_buf (events ?h) = []" "wakeup_signals ?h = 0" "log_lines ?h = []"
             "\<not> choke_warning ?h"
    by (simp_all add: new_client_handle_def mp_ring_new_def)
  have noroom: "\<not> reserved_events ?full < int (mp_ring_available (events ?full) div sizeof_event)"
    unfolding full
    by (simp add: new_client_handle_def mp_ring_new_def mp_ring_available_def
                  mp_ring_buffered_def sizeof_event_def)
  have idle': "bit (event_mask ?full) (event_num (event_id (zero_event\<lparr>event_id := MPV_EVENT_IDLE\<rparr>)))"
    unfolding full using idle by simp
  have vals': "ring_buf (events ?full) = []" "wakeup_signals ?full = 0" "log_lines ?full = []"
              "\<not> choke_warning ?full"
    unfolding full using vals by simp_all
  have a: "send_event ?h (zero_event\<lparr>event_id := MPV_EVENT_TICK\<rparr>) = Inr (?h, 0)"
    using send_event_spec [OF reachable.created, of "''main''" "zero_event\<lparr>event_id := MPV_EVENT_TICK\<rparr>"]
          tick by auto
  have b: "\<exists>ctx'. send_event ?h (zero_event\<lparr>event_id := MPV_EVENT_IDLE\<rparr>) = Inr (ctx', 0)
         \<and> ring_buf (events ctx') = [zero_event\<lparr>event_id := MPV_EVENT_IDLE\<rparr>]
         \<and> wakeup_signals ctx' = 1 \<and> log_lines ctx' = []"
    using send_event_spec [OF reachable.created, of "''main''" "zero_event\<lparr>event_id := MPV_EVENT_IDLE\<rparr>"]
          idle room vals by auto
  have c: "\<exists>ctx'. send_event ?full (zero_event\<lparr>event_id := MPV_EVENT_IDLE\<rparr>) = Inr (ctx', - 1)
         \<and> ring_buf (events ctx') = [] \<and> wakeup_signals ctx' = 0
         \<and> log_lines ctx' = [choke_line]"
    using send_event_spec [OF reachable_iterated, of 1000 "''main''" "zero_event\<lparr>event_id := MPV_EVENT_IDLE\<rparr>"]
          idle' noroom vals' by auto
  show ?thesis using a b c reachable.created reachable_iterated by blast
qed

section \<open>Waiting for events\<close>

lemma buffered_iff [simp]: "mp_ring_buffered r = 0 \<longleftrightarrow> ring_buf r = []"
  by (simp add: mp_ring_buffered_def sizeof_event_def)

lemma wait_body_ring:
  "ring_buf (events ctx) = e # es \<Longrightarrow>
     wait_event_body ctx timeout =
       Break (ctx\<lparr>events := (events ctx)\<lparr>ring_buf := es\<rparr>,
                  cur_event := e,
                  cur_event_children := talloc_steal (cur_event_children ctx) (data e)\<rparr>)"
  by (simp add: wait_event_body_def mp_ring_read_def)

lemma wait_body_shutdown:
  "ring_buf (events ctx) = [] \<Longrightarrow> shutdown ctx \<Longrightarrow>
     wait_event_body ctx timeout =
       Break (ctx\<lparr>cur_event := (cur_event ctx)\<lparr>event_id := MPV_EVENT_SHUTDOWN\<rparr>\<rparr>)"
  by (simp add: wait_event_body_def)

lemma wait_body_log_message:
  "ring_buf (events ctx) = [] \<Longrightarrow> \<not> shutdown ctx \<Longrightarrow> messages ctx = Some (msg # b) \<Longrightarrow>
     wait_event_body ctx timeout =
       Break (ctx\<lparr>messages := Some b,
                  cur_event := (cur_event ctx)
                    \<lparr>event_id := MPV_EVENT_LOG_MESSAGE,
                     data := Event_log_message (prefix msg) (mp_log_levels (level msg)) (text_of msg)\<rparr>,
                  cur_event_children := cur_event_children ctx
                    @ [Event_log_message (prefix msg) (mp_log_levels (level msg)) (text_of msg)]\<rparr>)"
  by (simp add: wait_event_body_def mp_msg_log_buffer_read_def Let_def)

lemma wait_body_idle:
  assumes "ring_buf (events ctx) = []" and "\<not> shutdown ctx"
    and "messages ctx = None \<or> messages ctx = Some []"
  shows "wait_event_body ctx timeout =
           (if queued_wakeup ctx then Break ctx
            else if timeout \<le> 0 then Break ctx
            else Timedwait ctx)"
  using assms by (auto simp: wait_event_body_def mp_msg_log_buffer_read_def)

lemma wait_begin_fields [simp]:
  "events (fst (wait_event_begin ctx)) = events ctx"
  "shutdown (fst (wait_event_begin ctx)) = shutdown ctx"
  "messages (fst (wait_event_begin ctx)) = messages ctx"
  "queued_wakeup (fst (wait_event_begin ctx)) = queued_wakeup ctx"
  "cur_event (fst (wait_event_begin ctx)) = zero_event"
  "cur_event_children (fst (wait_event_begin ctx)) = []"
  "snd (wait_event_begin ctx) = cur_event_children ctx"
  by (simp_all add: wait_event_begin_def)

lemma wait_loop_break:
  "wait_event_body ctx timeout = Break ctx' \<Longrightarrow> wait_event_loop ctx timeout env = Some (Inr ctx')"
  by (cases env) simp_all

lemma wait_event_break:
  "wait_event_body (fst (wait_event_begin ctx)) timeout = Break ctx' \<Longrightarrow>
     mpv_wait_event ctx timeout env = Some (Inr (ctx'\<lparr>queued_wakeup := False\<rparr>, cur_event_children ctx))"
  by (simp add: mpv_wait_event_def wait_event_begin_def wait_loop_break)

text \<open>
  Claim C4. \<^verbatim>\<open>mpv_wait_event\<close> takes the first of its sources that applies, in this
  order, and returns at once, whatever the environment: (1) a buffered record is taken off
  the ring into the scratch event and its payload becomes a child of the scratch event;
  (2) with \<open>shutdown\<close> set, a SHUTDOWN event; (3) with a message in the log buffer, a
  LOG_MESSAGE event built from it; (4) with \<open>queued_wakeup\<close> set, a NONE event, and the
  flag is cleared; (5) with \<open>timeout \<le> 0\<close>, a NONE event. (6) Otherwise the pass through
  the loop body ends in \<^verbatim>\<open>pthread_cond_timedwait\<close>: the call has not returned while no
  wait has ended, and after a wait the loop runs again on the handle as the other threads
  have left it.
\<close>

theorem wait_event_priority:
  "(ring_buf (events ctx) = e # es \<longrightarrow>
      mpv_wait_event ctx timeout env =
        Some (Inr (ctx\<lparr>events := (events ctx)\<lparr>ring_buf := es\<rparr>,
                       cur_event := e,
                       cur_event_children := talloc_steal [] (data e),
                       queued_wakeup := False\<rparr>,
                   cur_event_children ctx)))
   \<and> (ring_buf (events ctx) = [] \<and> shutdown ctx \<longrightarrow>
      mpv_wait_event ctx timeout env =
        Some (Inr (ctx\<lparr>cur_event := zero_event\<lparr>event_id := MPV_EVENT_SHUTDOWN\<rparr>,
                       cur_event_children := [],
                       queued_wakeup := False\<rparr>,
                   cur_event_children ctx)))
   \<and> (ring_buf (events ctx) = [] \<and> \<not> shutdown ctx \<and> messages ctx = Some (msg # b) \<longrightarrow>
      mpv_wait_event ctx timeout env =
        Some (Inr (ctx\<lparr>messages := Some b,
                       cur_event := zero_event
                         \<lparr>event_id := MPV_EVENT_LOG_MESSAGE,
                          data := Event_log_message (prefix msg) (mp_log_levels (level msg))
                                    (text_of msg)\<rparr>,
                       cur_event_children :=
                         [Event_log_message (prefix msg) (mp_log_levels (level msg))
                            (text_of msg)],
                       queued_wakeup := False\<rparr>,
                   cur_event_children ctx)))
   \<and> (ring_buf (events ctx) = [] \<and> \<not> shutdown ctx
        \<and> (messages ctx = None \<or> messages ctx = Some []) \<and> queued_wakeup ctx \<longrightarrow>
      mpv_wait_event ctx timeout env =
        Some (Inr (ctx\<lparr>cur_event := zero_event, cur_event_children := [],
                       queued_wakeup := False\<rparr>,
                   cur_event_children ctx)))
   \<and> (ring_buf (events ctx) = [] \<and> \<not> shutdown ctx
        \<and> (messages ctx = None \<or> messages ctx = Some []) \<and> \<not> queued_wakeup ctx
        \<and> timeout \<le> 0 \<longrightarrow>
      mpv_wait_event ctx timeout env =
        Some (Inr (ctx\<lparr>cur_event := zero_event, cur_event_children := [],
                       queued_wakeup := False\<rparr>,
                   cur_event_children ctx)))
   \<and> (ring_buf (events ctx) = [] \<and> \<not> shutdown ctx
        \<and> (messages ctx = None \<or> messages ctx = Some []) \<and> \<not> queued_wakeup ctx
        \<and> 0 < timeout \<longrightarrow>
      wait_event_body (fst (wait_event_begin ctx)) timeout
        = Timedwait (fst (wait_event_begin ctx))
      \<and> mpv_wait_event ctx timeout [] = None
      \<and> (\<forall>other env'.
            mpv_wait_event ctx timeout (other # env') =
              (case wait_event_loop (other (fst (wait_event_begin ctx))) timeout env' of
                 None \<Rightarrow> None
               | Some (Inl f) \<Rightarrow> Some (Inl f)
               | Some (Inr ctx1) \<Rightarrow>
                   Some (Inr (ctx1\<lparr>queued_wakeup := False\<rparr>, cur_event_children ctx)))))"
proof -
  let ?ctx0 = "fst (wait_event_begin ctx)"
  have ring: "ring_buf (events ctx) = e # es \<longrightarrow>
      mpv_wait_event ctx timeout env =
        Some (Inr (ctx\<lparr>events := (events ctx)\<lparr>ring_buf := es\<rparr>,
                       cur_event := e,
                       cur_event_children := talloc_steal [] (data e),
                       queued_wakeup := False\<rparr>,
                   cur_event_children ctx))"
  proof
    assume a: "ring_buf (events ctx) = e # es"
    then have "ring_buf (events ?ctx0) = e # es" by simp
    from wait_event_break [OF wait_body_ring [OF this]]
    show "mpv_wait_event ctx timeout env =
        Some (Inr (ctx\<lparr>events := (events ctx)\<lparr>ring_buf := es\<rparr>,
                       cur_event := e,
                       cur_event_children := talloc_steal [] (data e),
                       queued_wakeup := False\<rparr>,
                   cur_event_children ctx))"
      by (simp add: wait_event_begin_def)
  qed
  have shut: "ring_buf (events ctx) = [] \<and> shutdown ctx \<longrightarrow>
      mpv_wait_event ctx timeout env =
        Some (Inr (ctx\<lparr>cur_event := zero_event\<lparr>event_id := MPV_EVENT_SHUTDOWN\<rparr>,
                       cur_event_children := [],
                       queued_wakeup := False\<rparr>,
                   cur_event_children ctx))"
  proof
    assume a: "ring_buf (events ctx) = [] \<and> shutdown ctx"
    then have "ring_buf (events ?ctx0) = []" "shutdown ?ctx0" by simp_all
    from wait_event_break [OF wait_body_shutdown [OF this]]
    show "mpv_wait_event ctx timeout env =
        Some (Inr (ctx\<lparr>cur_event := zero_event\<lparr>event_id := MPV_EVENT_SHUTDOWN\<rparr>,
                       cur_event_children := [],
                       queued_wakeup := False\<rparr>,
                   cur_event_children ctx))"
      by (simp add: wait_event_begin_def)
  qed
  have logm: "ring_buf (events ctx) = [] \<and> \<not> shutdown ctx \<and> messages ctx = Some (msg # b) \<longrightarrow>
      mpv_wait_event ctx timeout env =
        Some (Inr (ctx\<lparr>messages := Some b,
                       cur_event := zero_event
                         \<lparr>event_id := MPV_EVENT_LOG_MESSAGE,
                          data := Event_log_message (prefix msg) (mp_log_levels (level msg))
                                    (text_of msg)\<rparr>,
                       cur_event_children :=
                         [Event_log_message (prefix msg) (mp_log_levels (level msg))
                            (text_of msg)],
                       queued_wakeup := False\<rparr>,
                   cur_event_children ctx))"
  proof
    assume a: "ring_buf (events ctx) = [] \<and> \<not> shutdown ctx \<and> messages ctx = Some (msg # b)"
    then have "ring_buf (events ?ctx0) = []" "\<not> shutdown ?ctx0" "messages ?ctx0 = Some (msg # b)"
      by simp_all
    from wait_event_break [OF wait_body_log_message [OF this]]
    show "mpv_wait_event ctx timeout env =
        Some (Inr (ctx\<lparr>messages := Some b,
                       cur_event := zero_event
                         \<lparr>event_id := MPV_EVENT_LOG_MESSAGE,
                          data := Event_log_message (prefix msg) (mp_log_levels (level msg))
                                    (text_of msg)\<rparr>,
                       cur_event_children :=
                         [Event_log_message (prefix msg) (mp_log_levels (level msg))
                            (text_of msg)],
                       queued_wakeup := False\<rparr>,
                   cur_event_children ctx))"
      by (simp add: wait_event_begin_def)
  qed
  have idle: "wait_event_body ?ctx0 timeout =
           (if queued_wakeup ctx then Break ?ctx0
            else if timeout \<le> 0 then Break ?ctx0
            else Timedwait ?ctx0)"
    if "ring_buf (events ctx) = []" "\<not> shutdown ctx"
       "messages ctx = None \<or> messages ctx = Some []"
    using wait_body_idle [of ?ctx0 timeout] that by simp
  have woken: "ring_buf (events ctx) = [] \<and> \<not> shutdown ctx
        \<and> (messages ctx = None \<or> messages ctx = Some []) \<and> queued_wakeup ctx \<longrightarrow>
      mpv_wait_event ctx timeout env =
        Some (Inr (ctx\<lparr>cur_event := zero_event, cur_event_children := [],
                       queued_wakeup := False\<rparr>,
                   cur_event_children ctx))"
  proof
    assume a: "ring_buf (events ctx) = [] \<and> \<not> shutdown ctx
        \<and> (messages ctx = None \<or> messages ctx = Some []) \<and> queued_wakeup ctx"
    then have "wait_event_body ?ctx0 timeout = Break ?ctx0" using idle by simp
    from wait_event_break [OF this]
    show "mpv_wait_event ctx timeout env =
        Some (Inr (ctx\<lparr>cur_event := zero_event, cur_event_children := [],
                       queued_wakeup := False\<rparr>,
                   cur_event_children ctx))"
      by (simp add: wait_event_begin_def)
  qed
  have poll: "ring_buf (events ctx) = [] \<and> \<not> shutdown ctx
        \<and> (messages ctx = None \<or> messages ctx = Some []) \<and> \<not> queued_wakeup ctx
        \<and> timeout \<le> 0 \<longrightarrow>
      mpv_wait_event ctx timeout env =
        Some (Inr (ctx\<lparr>cur_event := zero_event, cur_event_children := [],
                       queued_wakeup := False\<rparr>,
                   cur_event_children ctx))"
  proof
    assume a: "ring_buf (events ctx) = [] \<and> \<not> shutdown ctx
        \<and> (messages ctx = None \<or> messages ctx = Some []) \<and> \<not> queued_wakeup ctx
        \<and> timeout \<le> 0"
    then have "wait_event_body ?ctx0 timeout = Break ?ctx0" using idle by simp
    from wait_event_break [OF this]
    show "mpv_wait_event ctx timeout env =
        Some (Inr (ctx\<lparr>cur_event := zero_event, cur_event_children := [],
                       queued_wakeup := False\<rparr>,
                   cur_event_children ctx))"
      by (simp add: wait_event_begin_def)
  qed
  have block: "ring_buf (events ctx) = [] \<and> \<not> shutdown ctx
        \<and> (messages ctx = None \<or> messages ctx = Some []) \<and> \<not> queued_wakeup ctx
        \<and> 0 < timeout \<longrightarrow>
      wait_event_body ?ctx0 timeout = Timedwait ?ctx0
      \<and> mpv_wait_event ctx timeout [] = None
      \<and> (\<forall>other env'.
            mpv_wait_event ctx timeout (other # env') =
              (case wait_event_loop (other ?ctx0) timeout env' of
                 None \<Rightarrow> None
               | Some (Inl f) \<Rightarrow> Some (Inl f)
               | Some (Inr ctx1) \<Rightarrow>
                   Some (Inr (ctx1\<lparr>queued_wakeup := False\<rparr>, cur_event_children ctx))))"
  proof
    assume a: "ring_buf (events ctx) = [] \<and> \<not> shutdown ctx
        \<and> (messages ctx = None \<or> messages ctx = Some []) \<and> \<not> queued_wakeup ctx
        \<and> 0 < timeout"
    then have w: "wait_event_body ?ctx0 timeout = Timedwait ?ctx0" using idle by simp
    show "wait_event_body ?ctx0 timeout = Timedwait ?ctx0
      \<and> mpv_wait_event ctx timeout [] = None
      \<and> (\<forall>other env'.
            mpv_wait_event ctx timeout (other # env') =
              (case wait_event_loop (other ?ctx0) timeout env' of
                 None \<Rightarrow> None
               | Some (Inl f) \<Rightarrow> Some (Inl f)
               | Some (Inr ctx1) \<Rightarrow>
                   Some (Inr (ctx1\<lparr>queued_wakeup := False\<rparr>, cur_event_children ctx))))"
      using w by (simp add: mpv_wait_event_def wait_event_begin_def)
  qed
  show ?thesis
    by (rule conjI [OF ring conjI [OF shut conjI [OF logm conjI [OF woken conjI [OF poll block]]]]])
qed


theorem wait_event_priority_witness:
  "mpv_wait_event (new_client_handle ''main'') 0 [] = Some (Inr (new_client_handle ''main'', []))
   \<and> mpv_wait_event (new_client_handle ''main'') 1 [] = None
   \<and> mpv_wait_event (new_client_handle ''main'') 1 [mpv_wakeup] =
       Some (Inr ((new_client_handle ''main'')\<lparr>wakeup_signals := 1\<rparr>, []))
   \<and> mpv_wait_event ((new_client_handle ''main'')\<lparr>shutdown := True\<rparr>) 1 [] =
       Some (Inr ((new_client_handle ''main'')
                    \<lparr>cur_event := zero_event\<lparr>event_id := MPV_EVENT_SHUTDOWN\<rparr>,
                     shutdown := True\<rparr>, []))"
proof -
  let ?h = "new_client_handle ''main''"
  have h: "ring_buf (events ?h) = []" "\<not> shutdown ?h" "messages ?h = None"
          "\<not> queued_wakeup ?h" "cur_event_children ?h = []" "cur_event ?h = zero_event"
    by (simp_all add: new_client_handle_def mp_ring_new_def)
  have same: "?h\<lparr>cur_event := zero_event, cur_event_children := [], queued_wakeup := False\<rparr> = ?h"
    by (simp add: new_client_handle_def)
  have a: "mpv_wait_event ?h 0 [] = Some (Inr (?h, []))"
    using wait_event_priority [of ?h zero_event "[]" 0 "[]" "\<lparr>prefix = [], level = MSGL_INFO, text_of = []\<rparr>" "[]"] h same
    by simp
  have b: "mpv_wait_event ?h 1 [] = None"
    using wait_event_priority [of ?h zero_event "[]" 1 "[]" "\<lparr>prefix = [], level = MSGL_INFO, text_of = []\<rparr>" "[]"] h
    by simp
  have c: "mpv_wait_event ?h 1 [mpv_wakeup] = Some (Inr (?h\<lparr>wakeup_signals := 1\<rparr>, []))"
  proof -
    have "mpv_wait_event ?h 1 [mpv_wakeup] =
            (case wait_event_loop (mpv_wakeup (fst (wait_event_begin ?h))) 1 [] of
               None \<Rightarrow> None
             | Some (Inl f) \<Rightarrow> Some (Inl f)
             | Some (Inr ctx1) \<Rightarrow>
                 Some (Inr (ctx1\<lparr>queued_wakeup := False\<rparr>, cur_event_children ?h)))"
      using wait_event_priority [of ?h zero_event "[]" 1 "[]" "\<lparr>prefix = [], level = MSGL_INFO, text_of = []\<rparr>" "[]"] h
      by simp
    then show ?thesis
      by (simp add: new_client_handle_def mp_ring_new_def wait_event_begin_def mpv_wakeup_def
                    wakeup_client_def wait_event_body_def)
  qed
  have d: "mpv_wait_event (?h\<lparr>shutdown := True\<rparr>) 1 [] =
       Some (Inr (?h\<lparr>cur_event := zero_event\<lparr>event_id := MPV_EVENT_SHUTDOWN\<rparr>,
                     shutdown := True\<rparr>, []))"
    using wait_event_priority [of "?h\<lparr>shutdown := True\<rparr>" zero_event "[]" 1 "[]"
                                  "\<lparr>prefix = [], level = MSGL_INFO, text_of = []\<rparr>" "[]"] h
    by (simp add: new_client_handle_def)
  show ?thesis using a b c d by simp
qed

text \<open>
  Claim C10. Whenever \<^verbatim>\<open>mpv_wait_event\<close> returns, \<open>queued_wakeup\<close> is false in the
  handle it leaves. A pending wakeup is consumed also by a call that returns a buffered
  ring event, a SHUTDOWN event or a LOG_MESSAGE event.
\<close>

theorem wait_event_consumes_wakeup:
  "(\<forall>ctx' freed. mpv_wait_event ctx timeout env = Some (Inr (ctx', freed))
       \<longrightarrow> \<not> queued_wakeup ctx')
   \<and> (queued_wakeup ctx \<and> ring_buf (events ctx) = e # es \<longrightarrow>
        (\<exists>ctx' freed. mpv_wait_event ctx timeout env = Some (Inr (ctx', freed))
            \<and> cur_event ctx' = e \<and> \<not> queued_wakeup ctx'))
   \<and> (queued_wakeup ctx \<and> ring_buf (events ctx) = [] \<and> shutdown ctx \<longrightarrow>
        (\<exists>ctx' freed. mpv_wait_event ctx timeout env = Some (Inr (ctx', freed))
            \<and> event_id (cur_event ctx') = MPV_EVENT_SHUTDOWN \<and> \<not> queued_wakeup ctx'))
   \<and> (queued_wakeup ctx \<and> ring_buf (events ctx) = [] \<and> \<not> shutdown ctx
        \<and> messages ctx = Some (msg # b) \<longrightarrow>
        (\<exists>ctx' freed. mpv_wait_event ctx timeout env = Some (Inr (ctx', freed))
            \<and> event_id (cur_event ctx') = MPV_EVENT_LOG_MESSAGE \<and> \<not> queued_wakeup ctx'))"
proof -
  let ?ctx0 = "fst (wait_event_begin ctx)"
  have every: "\<forall>ctx' freed. mpv_wait_event ctx timeout env = Some (Inr (ctx', freed))
       \<longrightarrow> \<not> queued_wakeup ctx'"
    by (auto simp: mpv_wait_event_def split: prod.splits option.splits sum.splits)
  have ring: "queued_wakeup ctx \<and> ring_buf (events ctx) = e # es \<longrightarrow>
        (\<exists>ctx' freed. mpv_wait_event ctx timeout env = Some (Inr (ctx', freed))
            \<and> cur_event ctx' = e \<and> \<not> queued_wakeup ctx')"
  proof
    assume "queued_wakeup ctx \<and> ring_buf (events ctx) = e # es"
    then have "ring_buf (events ?ctx0) = e # es" by simp
    from wait_event_break [OF wait_body_ring [OF this], of timeout env]
    show "\<exists>ctx' freed. mpv_wait_event ctx timeout env = Some (Inr (ctx', freed))
            \<and> cur_event ctx' = e \<and> \<not> queued_wakeup ctx'"
      by simp
  qed
  have shut: "queued_wakeup ctx \<and> ring_buf (events ctx) = [] \<and> shutdown ctx \<longrightarrow>
        (\<exists>ctx' freed. mpv_wait_event ctx timeout env = Some (Inr (ctx', freed))
            \<and> event_id (cur_event ctx') = MPV_EVENT_SHUTDOWN \<and> \<not> queued_wakeup ctx')"
  proof
    assume "queued_wakeup ctx \<and> ring_buf (events ctx) = [] \<and> shutdown ctx"
    then have "ring_buf (events ?ctx0) = []" "shutdown ?ctx0" by simp_all
    from wait_event_break [OF wait_body_shutdown [OF this], of timeout env]
    show "\<exists>ctx' freed. mpv_wait_event ctx timeout env = Some (Inr (ctx', freed))
            \<and> event_id (cur_event ctx') = MPV_EVENT_SHUTDOWN \<and> \<not> queued_wakeup ctx'"
      by simp
  qed
  have logm: "queued_wakeup ctx \<and> ring_buf (events ctx) = [] \<and> \<not> shutdown ctx
        \<and> messages ctx = Some (msg # b) \<longrightarrow>
        (\<exists>ctx' freed. mpv_wait_event ctx timeout env = Some (Inr (ctx', freed))
            \<and> event_id (cur_event ctx') = MPV_EVENT_LOG_MESSAGE \<and> \<not> queued_wakeup ctx')"
  proof
    assume "queued_wakeup ctx \<and> ring_buf (events ctx) = [] \<and> \<not> shutdown ctx
        \<and> messages ctx = Some (msg # b)"
    then have "ring_buf (events ?ctx0) = []" "\<not> shutdown ?ctx0" "messages ?ctx0 = Some (msg # b)"
      by simp_all
    from wait_event_break [OF wait_body_log_message [OF this], of timeout env]
    show "\<exists>ctx' freed. mpv_wait_event ctx timeout env = Some (Inr (ctx', freed))
            \<and> event_id (cur_event ctx') = MPV_EVENT_LOG_MESSAGE \<and> \<not> queued_wakeup ctx'"
      by simp
  qed
  show ?thesis
    by (rule conjI [OF every conjI [OF ring conjI [OF shut logm]]])
qed

theorem wait_event_consumes_wakeup_witness:
  "queued_wakeup (mpv_wakeup ((new_client_handle ''main'')\<lparr>shutdown := True\<rparr>))
   \<and> mpv_wait_event (mpv_wakeup ((new_client_handle ''main'')\<lparr>shutdown := True\<rparr>)) 0 [] =
       Some (Inr ((new_client_handle ''main'')
                    \<lparr>cur_event := zero_event\<lparr>event_id := MPV_EVENT_SHUTDOWN\<rparr>,
                     wakeup_signals := 1, shutdown := True\<rparr>, []))
   \<and> \<not> queued_wakeup ((new_client_handle ''main'')
                    \<lparr>cur_event := zero_event\<lparr>event_id := MPV_EVENT_SHUTDOWN\<rparr>,
                     wakeup_signals := 1, shutdown := True\<rparr>)"
proof -
  let ?c = "mpv_wakeup ((new_client_handle ''main'')\<lparr>shutdown := True\<rparr>)"
  let ?r = "(new_client_handle ''main'')
                    \<lparr>cur_event := zero_event\<lparr>event_id := MPV_EVENT_SHUTDOWN\<rparr>,
                     wakeup_signals := 1, shutdown := True\<rparr>"
  have q: "queued_wakeup ?c" by (simp add: mpv_wakeup_def)
  have run: "mpv_wait_event ?c 0 [] = Some (Inr (?r, []))"
    by (simp add: mpv_wait_event_def wait_event_begin_def wait_event_body_def mpv_wakeup_def
                  wakeup_client_def new_client_handle_def mp_ring_new_def)
  have "\<not> queued_wakeup ?r"
    using wait_event_consumes_wakeup [of ?c 0 "[]" zero_event "[]" "\<lparr>prefix = [], level = MSGL_INFO, text_of = []\<rparr>" "[]"] run
    by blast
  then show ?thesis using q run by simp
qed

section \<open>Client names\<close>

lemma find_client_None: "find_client cs nm = None \<longleftrightarrow> nm \<notin> set (map name cs)"
  by (induction cs) auto

lemma find_client_Some:
  "find_client cs nm = Some n \<Longrightarrow> n < length cs \<and> name (cs ! n) = nm"
  by (induction cs arbitrary: n) (auto split: if_splits)

lemma unique_name_loop_found:
  assumes "n \<le> k" and "k < 1000"
    and "find_client cs (asprintf_sd nm k) = None"
    and "\<forall>j. n \<le> j \<and> j < k \<longrightarrow> find_client cs (asprintf_sd nm j) \<noteq> None"
  shows "unique_name_loop cs nm n = Some (asprintf_sd nm k)"
  using assms
proof (induction cs nm n rule: unique_name_loop.induct)
  case (1 cs nm n)
  show ?case
  proof (cases "n = k")
    case True
    then show ?thesis using 1 by (simp add: unique_name_loop.simps [of cs nm k])
  next
    case False
    then have lt: "n < k" using 1 by simp
    then have taken: "find_client cs (asprintf_sd nm n) \<noteq> None" using 1 by blast
    then obtain y where y: "find_client cs (asprintf_sd nm n) = Some y" by blast
    have "unique_name_loop cs nm (n + 1) = Some (asprintf_sd nm k)"
      using 1 lt taken by simp
    then show ?thesis
      using lt "1.prems"(2) by (simp add: unique_name_loop.simps [of cs nm n] Let_def y)
  qed
qed

lemma unique_name_loop_none:
  assumes "\<forall>j. n \<le> j \<and> j < 1000 \<longrightarrow> find_client cs (asprintf_sd nm j) \<noteq> None"
  shows "unique_name_loop cs nm n = None"
  using assms
proof (induction cs nm n rule: unique_name_loop.induct)
  case (1 cs nm n)
  show ?case
  proof (cases "n < 1000")
    case True
    then have taken: "find_client cs (asprintf_sd nm n) \<noteq> None" using 1 by simp
    then obtain y where y: "find_client cs (asprintf_sd nm n) = Some y" by blast
    have "unique_name_loop cs nm (n + 1) = None" using 1 True taken by simp
    then show ?thesis
      using True by (simp add: unique_name_loop.simps [of cs nm n] Let_def y)
  next
    case False
    then show ?thesis by (simp add: unique_name_loop.simps [of cs nm n])
  qed
qed

lemma unique_name_loop_free:
  "unique_name_loop cs nm n = Some u \<Longrightarrow> find_client cs u = None"
proof (induction cs nm n rule: unique_name_loop.induct)
  case (1 cs nm n)
  then show ?case
    by (simp add: unique_name_loop.simps [of cs nm n] Let_def split: if_splits)
qed

lemma mp_new_client_distinct:
  assumes "distinct (map name cs)"
  shows "distinct (map name (fst (mp_new_client cs nm)))"
proof (cases "find_client cs nm")
  case None
  then show ?thesis
    using assms by (simp add: mp_new_client_def new_client_handle_def find_client_None)
next
  case (Some n)
  show ?thesis
  proof (cases "unique_name_loop cs nm 2")
    case None
    then show ?thesis using Some assms by (simp add: mp_new_client_def)
  next
    case (Some u)
    then have "u \<notin> set (map name cs)"
      using unique_name_loop_free find_client_None by blast
    then show ?thesis
      using Some \<open>find_client cs nm = Some n\<close> assms
      by (simp add: mp_new_client_def new_client_handle_def)
  qed
qed

lemma distinct_remove_nth: "distinct xs \<Longrightarrow> distinct (take n xs @ drop (Suc n) xs)"
  by (simp add: set_take_disj_set_drop_if_distinct)

text \<open>No operation on a handle changes its name.\<close>

lemma handle_name_immutable:
  "name (fst (reserve_reply ctx)) = name ctx"
  "send_event ctx event = Inr (ctx', r) \<Longrightarrow> name ctx' = name ctx"
  "send_reply ctx reply_id event = Inr ctx' \<Longrightarrow> name ctx' = name ctx"
  "name (fst (mpv_request_event ctx ev enable)) = name ctx"
  "name (fst (mpv_request_log_messages ctx min_level)) = name ctx"
  "name (mpv_wakeup ctx) = name ctx"
  "name (mpv_set_wakeup_callback ctx cb d) = name ctx"
  "wait_event_body ctx timeout = Break ctx' \<Longrightarrow> name ctx' = name ctx"
  "name (fst (wait_event_begin ctx)) = name ctx"
  by (auto simp: reserve_reply_def send_event_def send_reply_def mpv_request_event_def
                 mpv_request_log_messages_def mpv_wakeup_def mpv_set_wakeup_callback_def
                 wait_event_begin_def wait_event_body_def mp_ring_write_def
                 mp_ring_read_def mp_msg_log_buffer_read_def Let_def
           split: if_splits prod.splits sum.splits list.splits option.splits loop_exit.splits)

lemma registry_distinct: "registry_reachable cs \<Longrightarrow> distinct (map name cs)"
proof (induction rule: registry_reachable.induct)
  case initial
  show ?case by simp
next
  case (added cs nm)
  from added.IH show ?case by (rule mp_new_client_distinct)
next
  case (destroyed cs n cs' freed)
  then have "cs' = take n cs @ drop (Suc n) cs"
    by (simp add: mpv_destroy_def Let_def split: if_splits)
  then have "map name cs' = take n (map name cs) @ drop (Suc n) (map name cs)"
    by (simp add: take_map drop_map)
  then show ?case using distinct_remove_nth [OF destroyed.IH, of n] by simp
next
  case (changed cs n ctx')
  then have "map name (cs[n := ctx']) = map name cs"
    by (simp add: map_update list_update_same_conv)
  then show ?case using changed.IH by simp
qed

lemma show_nat_digit: "n < 10 \<Longrightarrow> show_nat n = [digit_char n]"
  by (simp add: show_nat.simps [of n])

lemma show_nat_2: "show_nat 2 = ''2''"
  by code_simp

lemma show_nat_999: "show_nat 999 = ''999''"
  by code_simp

lemma name_new_client_handle [simp]: "name (new_client_handle nm) = nm"
  by (simp add: new_client_handle_def)

lemma all_suffixes_taken:
  "nm \<in> set (map name (map new_client_handle (nm # map (\<lambda>k. nm @ show_nat k) [a..<b])))"
  "a \<le> j \<Longrightarrow> j < b \<Longrightarrow>
     nm @ show_nat j
       \<in> set (map name (map new_client_handle (nm # map (\<lambda>k. nm @ show_nat k) [a..<b])))"
  by (simp_all add: comp_def)

text \<open>
  Claim C7. \<^verbatim>\<open>mp_new_client\<close>, called with a name that no registered client holds,
  registers the client under that name. On a collision it registers the first free name
  among the name followed by 2, 3, ..., 999 (decimal), so a second client named "A" becomes
  "A2"; when all of them are taken it returns NULL and leaves the registry as it is.
  A registry with distinct names has distinct names after the call, and the names in the
  registry are distinct in every state of it.
\<close>

theorem mp_new_client_unique_names:
  "(nm \<notin> set (map name cs) \<longrightarrow>
      mp_new_client cs nm = (cs @ [new_client_handle nm], Some (length cs)))
   \<and> (nm \<in> set (map name cs) \<and> 2 \<le> k \<and> k < 1000
        \<and> nm @ show_nat k \<notin> set (map name cs)
        \<and> (\<forall>j. 2 \<le> j \<and> j < k \<longrightarrow> nm @ show_nat j \<in> set (map name cs)) \<longrightarrow>
      mp_new_client cs nm = (cs @ [new_client_handle (nm @ show_nat k)], Some (length cs)))
   \<and> (nm \<in> set (map name cs)
        \<and> (\<forall>j. 2 \<le> j \<and> j < 1000 \<longrightarrow> nm @ show_nat j \<in> set (map name cs)) \<longrightarrow>
      mp_new_client cs nm = (cs, None))
   \<and> name (new_client_handle nm) = nm
   \<and> (distinct (map name cs) \<longrightarrow> distinct (map name (fst (mp_new_client cs nm))))
   \<and> (registry_reachable cs \<longrightarrow> distinct (map name cs))"
proof -
  have free: "nm \<notin> set (map name cs) \<longrightarrow>
      mp_new_client cs nm = (cs @ [new_client_handle nm], Some (length cs))"
    using find_client_None [of cs nm] by (simp add: mp_new_client_def)
  have suffix: "nm \<in> set (map name cs) \<and> 2 \<le> k \<and> k < 1000
        \<and> nm @ show_nat k \<notin> set (map name cs)
        \<and> (\<forall>j. 2 \<le> j \<and> j < k \<longrightarrow> nm @ show_nat j \<in> set (map name cs)) \<longrightarrow>
      mp_new_client cs nm = (cs @ [new_client_handle (nm @ show_nat k)], Some (length cs))"
  proof
    assume a: "nm \<in> set (map name cs) \<and> 2 \<le> k \<and> k < 1000
        \<and> nm @ show_nat k \<notin> set (map name cs)
        \<and> (\<forall>j. 2 \<le> j \<and> j < k \<longrightarrow> nm @ show_nat j \<in> set (map name cs))"
    then have held: "find_client cs nm \<noteq> None" using find_client_None [of cs nm] by simp
    have "unique_name_loop cs nm 2 = Some (asprintf_sd nm k)"
    proof (rule unique_name_loop_found)
      show "2 \<le> k" "k < 1000" using a by simp_all
      show "find_client cs (asprintf_sd nm k) = None"
        using a by (simp add: find_client_None asprintf_sd_def)
      show "\<forall>j. 2 \<le> j \<and> j < k \<longrightarrow> find_client cs (asprintf_sd nm j) \<noteq> None"
        using a by (simp add: find_client_None asprintf_sd_def)
    qed
    then show "mp_new_client cs nm =
        (cs @ [new_client_handle (nm @ show_nat k)], Some (length cs))"
      using held by (simp add: mp_new_client_def asprintf_sd_def)
  qed
  have taken: "nm \<in> set (map name cs)
        \<and> (\<forall>j. 2 \<le> j \<and> j < 1000 \<longrightarrow> nm @ show_nat j \<in> set (map name cs)) \<longrightarrow>
      mp_new_client cs nm = (cs, None)"
  proof
    assume a: "nm \<in> set (map name cs)
        \<and> (\<forall>j. 2 \<le> j \<and> j < 1000 \<longrightarrow> nm @ show_nat j \<in> set (map name cs))"
    then have held: "find_client cs nm \<noteq> None" using find_client_None [of cs nm] by simp
    have "unique_name_loop cs nm 2 = None"
    proof (rule unique_name_loop_none)
      show "\<forall>j. 2 \<le> j \<and> j < 1000 \<longrightarrow> find_client cs (asprintf_sd nm j) \<noteq> None"
        using a by (simp add: find_client_None asprintf_sd_def)
    qed
    then show "mp_new_client cs nm = (cs, None)"
      using held by (simp add: mp_new_client_def)
  qed
  have nm: "name (new_client_handle nm) = nm" by simp
  have keep: "distinct (map name cs) \<longrightarrow> distinct (map name (fst (mp_new_client cs nm)))"
    using mp_new_client_distinct by blast
  have always: "registry_reachable cs \<longrightarrow> distinct (map name cs)"
    using registry_distinct by blast
  show ?thesis
    by (rule conjI [OF free conjI [OF suffix conjI [OF taken conjI [OF nm conjI [OF keep always]]]]])
qed

theorem mp_new_client_unique_names_witness:
  "mp_new_client [] ''A'' = ([new_client_handle ''A''], Some 0)
   \<and> mp_new_client [new_client_handle ''A''] ''A''
       = ([new_client_handle ''A'', new_client_handle ''A2''], Some 1)
   \<and> mp_new_client
         (map new_client_handle (''A'' # map (\<lambda>k. ''A'' @ show_nat k) [2..<1000])) ''A''
       = (map new_client_handle (''A'' # map (\<lambda>k. ''A'' @ show_nat k) [2..<1000]), None)
   \<and> registry_reachable [new_client_handle ''A'', new_client_handle ''A2'']
   \<and> distinct (map name [new_client_handle ''A'', new_client_handle ''A2''])"
proof -
  let ?a = "new_client_handle ''A''"
  let ?all = "map new_client_handle (''A'' # map (\<lambda>k. ''A'' @ show_nat k) [2..<1000])"
  have first: "mp_new_client [] ''A'' = ([?a], Some 0)"
    using mp_new_client_unique_names [of "''A''" "[]" 2] by simp
  have second: "mp_new_client [?a] ''A'' = ([?a, new_client_handle ''A2''], Some 1)"
  proof -
    have none: "\<forall>j::nat. 2 \<le> j \<and> j < 2 \<longrightarrow> ''A'' @ show_nat j \<in> set (map name [?a])"
      by arith
    show ?thesis
      using mp_new_client_unique_names [of "''A''" "[?a]" 2] none by (simp add: show_nat_2)
  qed
  have full: "mp_new_client ?all ''A'' = (?all, None)"
  proof -
    have h1: "''A'' \<in> set (map name ?all)"
      by (rule all_suffixes_taken(1))
    have h2: "\<forall>j. 2 \<le> j \<and> j < 1000 \<longrightarrow> ''A'' @ show_nat j \<in> set (map name ?all)"
      using all_suffixes_taken(2) by blast
    from mp_new_client_unique_names [of "''A''" ?all 2] h1 h2 show ?thesis by blast
  qed
  have r0: "registry_reachable (fst (mp_new_client [] ''A''))"
    by (rule registry_reachable.added) (rule registry_reachable.initial)
  have "registry_reachable (fst (mp_new_client [?a] ''A''))"
    using registry_reachable.added [OF r0, of "''A''"] unfolding first by simp
  then have r: "registry_reachable [?a, new_client_handle ''A2'']"
    unfolding second by simp
  have d: "distinct (map name [?a, new_client_handle ''A2''])"
    using mp_new_client_unique_names [of "''A''" "[?a, new_client_handle ''A2'']" 2] r by blast
  show ?thesis using first second full r d by blast
qed

section \<open>Broadcast and targeted events\<close>

lemma send_event_returns:
  assumes "handle_inv ctx"
  shows "\<exists>ctx' r. send_event ctx event = Inr (ctx', r) \<and> handle_inv ctx'"
proof -
  let ?on = "bit (event_mask ctx) (event_num (event_id event))"
  let ?room = "reserved_events ctx < int (mp_ring_available (events ctx) div sizeof_event)"
  consider (masked) "\<not> ?on" | (written) "?on" "?room" | (dropped) "?on" "\<not> ?room"
    by blast
  then obtain ctx' r where "send_event ctx event = Inr (ctx', r)"
  proof cases
    case masked
    then show ?thesis using that send_event_masked by blast
  next
    case written
    then show ?thesis using that send_event_written [OF assms] by blast
  next
    case dropped
    then show ?thesis using that send_event_dropped by blast
  qed
  then show ?thesis using send_event_inv [OF assms] by blast
qed

lemma broadcast_loop_returns:
  "\<forall>c\<in>set cs. handle_inv c \<Longrightarrow>
     \<exists>cs'. broadcast_loop cs event_data = Inr cs' \<and> length cs' = length cs"
proof (induction cs)
  case Nil
  show ?case by simp
next
  case (Cons c cs)
  then obtain c' r where c': "send_event c event_data = Inr (c', r)"
    using send_event_returns [of c event_data] by auto
  from Cons obtain cs' where cs': "broadcast_loop cs event_data = Inr cs'" "length cs' = length cs"
    by auto
  show ?case using c' cs' by simp
qed

lemma broadcast_loop_length:
  "broadcast_loop cs event_data = Inr cs' \<Longrightarrow> length cs' = length cs"
  by (induction cs arbitrary: cs') (auto split: sum.splits prod.splits)

text \<open>
  Claim C9. What \<^verbatim>\<open>mp_client_broadcast_event\<close> frees is its \<open>data\<close>, once, after the
  loop over the registered clients, however many there are and whatever each
  \<^verbatim>\<open>send_event\<close> does; with every registered handle in one of its states the call
  returns. \<^verbatim>\<open>mp_client_send_event\<close> frees \<open>data\<close> once when no client has the name,
  and frees nothing when it hands the event to the client found.
\<close>

theorem event_data_freed_once:
  "(\<forall>cs' freed. mp_client_broadcast_event cs event d = Inr (cs', freed)
        \<longrightarrow> freed = talloc_free d \<and> length cs' = length cs)
   \<and> ((\<forall>c\<in>set cs. reachable c)
        \<longrightarrow> (\<exists>cs'. mp_client_broadcast_event cs event d = Inr (cs', talloc_free d)))
   \<and> (d \<noteq> NULL \<longrightarrow> talloc_free d = [d])
   \<and> (client_name \<notin> set (map name cs)
        \<longrightarrow> mp_client_send_event cs client_name event d = Inr (cs, - 1, talloc_free d))
   \<and> (client_name \<in> set (map name cs)
        \<longrightarrow> (\<forall>cs' r freed. mp_client_send_event cs client_name event d = Inr (cs', r, freed)
               \<longrightarrow> freed = []))
   \<and> (client_name \<in> set (map name cs) \<and> (\<forall>c\<in>set cs. reachable c)
        \<longrightarrow> (\<exists>cs' r. mp_client_send_event cs client_name event d = Inr (cs', r, [])))"
proof -
  let ?event_data = "zero_event\<lparr>event_id := event, data := d\<rparr>"
  have after: "\<forall>cs' freed. mp_client_broadcast_event cs event d = Inr (cs', freed)
        \<longrightarrow> freed = talloc_free d \<and> length cs' = length cs"
    by (auto simp: mp_client_broadcast_event_def Let_def broadcast_loop_length
             split: sum.splits)
  have total: "(\<forall>c\<in>set cs. reachable c)
        \<longrightarrow> (\<exists>cs'. mp_client_broadcast_event cs event d = Inr (cs', talloc_free d))"
  proof
    assume "\<forall>c\<in>set cs. reachable c"
    then have "\<forall>c\<in>set cs. handle_inv c" using reachable_inv by blast
    from broadcast_loop_returns [OF this, of ?event_data]
    show "\<exists>cs'. mp_client_broadcast_event cs event d = Inr (cs', talloc_free d)"
      by (auto simp: mp_client_broadcast_event_def Let_def)
  qed
  have once: "d \<noteq> NULL \<longrightarrow> talloc_free d = [d]"
    by (simp add: talloc_free_def)
  have missing: "client_name \<notin> set (map name cs)
        \<longrightarrow> mp_client_send_event cs client_name event d = Inr (cs, - 1, talloc_free d)"
    using find_client_None [of cs client_name]
    by (auto simp: mp_client_send_event_def Let_def)
  have found: "client_name \<in> set (map name cs)
        \<longrightarrow> (\<forall>cs' r freed. mp_client_send_event cs client_name event d = Inr (cs', r, freed)
               \<longrightarrow> freed = [])"
    using find_client_None [of cs client_name]
    by (auto simp: mp_client_send_event_def Let_def split: option.splits sum.splits)
  have found_total: "client_name \<in> set (map name cs) \<and> (\<forall>c\<in>set cs. reachable c)
        \<longrightarrow> (\<exists>cs' r. mp_client_send_event cs client_name event d = Inr (cs', r, []))"
  proof
    assume a: "client_name \<in> set (map name cs) \<and> (\<forall>c\<in>set cs. reachable c)"
    then obtain n where n: "find_client cs client_name = Some n"
      using find_client_None [of cs client_name] by auto
    then have "n < length cs" using find_client_Some by blast
    then have "handle_inv (cs ! n)" using a reachable_inv by simp
    from send_event_returns [OF this, of ?event_data]
    show "\<exists>cs' r. mp_client_send_event cs client_name event d = Inr (cs', r, [])"
      using n by (auto simp: mp_client_send_event_def Let_def)
  qed
  show ?thesis
    by (rule conjI [OF after conjI [OF total conjI [OF once conjI [OF missing
          conjI [OF found found_total]]]]])
qed

theorem event_data_freed_once_witness:
  "mp_client_broadcast_event [] MPV_EVENT_IDLE (Opaque 7) = Inr ([], [Opaque 7])
   \<and> (\<exists>cs'. mp_client_broadcast_event
               [new_client_handle ''a'',
                ((\<lambda>c. fst (reserve_reply c)) ^^ 1000) (new_client_handle ''b''),
                fst (mpv_request_event (new_client_handle ''c'') MPV_EVENT_IDLE 0)]
               MPV_EVENT_IDLE (Opaque 7) = Inr (cs', [Opaque 7]))
   \<and> mp_client_send_event [new_client_handle ''a''] ''b'' MPV_EVENT_IDLE (Opaque 7)
       = Inr ([new_client_handle ''a''], - 1, [Opaque 7])
   \<and> (\<exists>cs' r. mp_client_send_event [new_client_handle ''a''] ''a'' MPV_EVENT_IDLE (Opaque 7)
                 = Inr (cs', r, []))"
proof -
  let ?a = "new_client_handle ''a''"
  let ?b = "((\<lambda>c. fst (reserve_reply c)) ^^ 1000) (new_client_handle ''b'')"
  let ?c = "fst (mpv_request_event (new_client_handle ''c'') MPV_EVENT_IDLE 0)"
  have free: "talloc_free (Opaque 7) = [Opaque 7]"
    using event_data_freed_once [of "[]" MPV_EVENT_IDLE "Opaque 7" "''b''"] by simp
  have none: "mp_client_broadcast_event [] MPV_EVENT_IDLE (Opaque 7) = Inr ([], [Opaque 7])"
    using event_data_freed_once [of "[]" MPV_EVENT_IDLE "Opaque 7" "''b''"] by auto
  have ra: "reachable ?a" by (rule reachable.created)
  have rb: "reachable ?b" by (rule reachable_iterated)
  have rc: "reachable ?c" by (rule reachable.requested_event) (rule reachable.created)
  have three: "\<exists>cs'. mp_client_broadcast_event [?a, ?b, ?c] MPV_EVENT_IDLE (Opaque 7)
                 = Inr (cs', [Opaque 7])"
    using event_data_freed_once [of "[?a, ?b, ?c]" MPV_EVENT_IDLE "Opaque 7" "''b''"]
          ra rb rc free
    by (simp del: funpow.simps)
  have miss: "mp_client_send_event [?a] ''b'' MPV_EVENT_IDLE (Opaque 7)
       = Inr ([?a], - 1, [Opaque 7])"
    using event_data_freed_once [of "[?a]" MPV_EVENT_IDLE "Opaque 7" "''b''"] free by simp
  have hit: "\<exists>cs' r. mp_client_send_event [?a] ''a'' MPV_EVENT_IDLE (Opaque 7) = Inr (cs', r, [])"
    using event_data_freed_once [of "[?a]" MPV_EVENT_IDLE "Opaque 7" "''a''"] ra by simp
  show ?thesis using none three miss hit by blast
qed

lemma broadcast_loop_masked:
  "broadcast_loop cs event_data = Inr cs' \<Longrightarrow> n < length cs
     \<Longrightarrow> \<not> bit (event_mask (cs ! n)) (event_num (event_id event_data))
     \<Longrightarrow> cs' ! n = cs ! n"
proof (induction cs arbitrary: cs' n)
  case Nil
  then show ?case by simp
next
  case (Cons c cs)
  then obtain c' r cs'' where parts: "send_event c event_data = Inr (c', r)"
      "broadcast_loop cs event_data = Inr cs''" "cs' = c' # cs''"
    by (auto split: sum.splits prod.splits)
  show ?case
  proof (cases n)
    case 0
    then show ?thesis using Cons.prems parts send_event_masked [of c event_data] by simp
  next
    case (Suc m)
    then show ?thesis using Cons parts by simp
  qed
qed

lemma send_event_keeps_gate:
  assumes "mask_gated K ctx" and "send_event ctx event = Inr (ctx', r)"
  shows "mask_gated K ctx'"
proof (cases "event_id event = K")
  case True
  then have "send_event ctx event = Inr (ctx, 0)"
    using assms(1) send_event_masked [of ctx event] by (simp add: mask_gated_def)
  then show ?thesis using assms by simp
next
  case False
  then show ?thesis
    using assms
    by (auto simp: send_event_def mask_gated_def mp_ring_write_def Let_def
             split: if_splits prod.splits sum.splits)
qed

lemma send_reply_keeps_gate:
  assumes "mask_gated K ctx" and "event_id event \<noteq> K"
    and "send_reply ctx reply_id event = Inr ctx'"
  shows "mask_gated K ctx'"
  using assms
  by (auto simp: send_reply_def mask_gated_def mp_ring_write_def Let_def
           split: if_splits prod.splits)

lemma sent_by_other_keeps_gate:
  "mask_gated K h \<Longrightarrow> mask_gated K (sent_by_other event h) \<and> cur_event (sent_by_other event h) = cur_event h"
proof -
  assume g: "mask_gated K h"
  show ?thesis
  proof (cases "send_event h event")
    case (Inl f)
    then show ?thesis using g by (simp add: sent_by_other_def)
  next
    case (Inr p)
    obtain h' r where p: "p = (h', r)" by (cases p)
    have "mask_gated K h'" using send_event_keeps_gate [OF g] Inr p by simp
    moreover have "cur_event h' = cur_event h"
      using Inr p
      by (auto simp: send_event_def mp_ring_write_def wakeup_client_def Let_def
               split: if_splits prod.splits sum.splits option.splits)
    ultimately show ?thesis using Inr p by (simp add: sent_by_other_def)
  qed
qed

lemma broadcast_loop_keeps_gate:
  "broadcast_loop cs event_data = Inr cs' \<Longrightarrow> n < length cs \<Longrightarrow> mask_gated K (cs ! n)
     \<Longrightarrow> mask_gated K (cs' ! n)"
proof (induction cs arbitrary: cs' n)
  case Nil
  then show ?case by simp
next
  case (Cons c cs)
  then obtain c' r cs'' where parts: "send_event c event_data = Inr (c', r)"
      "broadcast_loop cs event_data = Inr cs''" "cs' = c' # cs''"
    by (auto split: sum.splits prod.splits)
  show ?case
  proof (cases n)
    case 0
    then show ?thesis using Cons.prems parts send_event_keeps_gate [of K c event_data c' r] by simp
  next
    case (Suc m)
    then show ?thesis using Cons parts by simp
  qed
qed

lemma wait_body_gated:
  assumes "mask_gated K ctx" and "event_id (cur_event ctx) \<noteq> K"
    and "K \<noteq> MPV_EVENT_SHUTDOWN" and "K \<noteq> MPV_EVENT_LOG_MESSAGE"
  shows "wait_event_body ctx timeout = Break ctx'
           \<Longrightarrow> mask_gated K ctx' \<and> event_id (cur_event ctx') \<noteq> K"
    and "wait_event_body ctx timeout = Timedwait ctx'
           \<Longrightarrow> mask_gated K ctx' \<and> cur_event ctx' = cur_event ctx"
  using assms
  by (auto simp: wait_event_body_def mask_gated_def mp_ring_read_def mp_msg_log_buffer_read_def
                 Let_def
           split: if_splits prod.splits list.splits option.splits)

lemma wait_loop_gated:
  assumes "\<forall>other\<in>set env. \<forall>h. mask_gated K h
             \<longrightarrow> mask_gated K (other h) \<and> cur_event (other h) = cur_event h"
    and "K \<noteq> MPV_EVENT_SHUTDOWN" and "K \<noteq> MPV_EVENT_LOG_MESSAGE"
  shows "mask_gated K ctx \<Longrightarrow> event_id (cur_event ctx) \<noteq> K
           \<Longrightarrow> wait_event_loop ctx timeout env = Some (Inr ctx')
           \<Longrightarrow> mask_gated K ctx' \<and> event_id (cur_event ctx') \<noteq> K"
  using assms(1)
proof (induction env arbitrary: ctx)
  case Nil
  then show ?case
    using wait_body_gated(1) [OF Nil.prems(1,2) assms(2,3), of timeout]
    by (auto split: loop_exit.splits)
next
  case (Cons other env)
  show ?case
  proof (cases "wait_event_body ctx timeout")
    case (Break c)
    then show ?thesis
      using Cons.prems wait_body_gated(1) [OF Cons.prems(1,2) assms(2,3), of timeout c] by simp
  next
    case (Timedwait c)
    then have c: "mask_gated K c" "cur_event c = cur_event ctx"
      using wait_body_gated(2) [OF Cons.prems(1,2) assms(2,3), of timeout c] by simp_all
    then have o: "mask_gated K (other c)" "cur_event (other c) = cur_event ctx"
      using Cons.prems(4) by simp_all
    have "wait_event_loop (other c) timeout env = Some (Inr ctx')"
      using Cons.prems(3) Timedwait by simp
    then show ?thesis
      using Cons.IH [of "other c"] o Cons.prems(2,4) by simp
  next
    case (Died f)
    then show ?thesis using Cons.prems by simp
  qed
qed

lemma wait_event_gated:
  assumes "\<forall>other\<in>set env. \<forall>h. mask_gated K h
             \<longrightarrow> mask_gated K (other h) \<and> cur_event (other h) = cur_event h"
    and "K \<noteq> MPV_EVENT_NONE" and "K \<noteq> MPV_EVENT_SHUTDOWN" and "K \<noteq> MPV_EVENT_LOG_MESSAGE"
    and "mask_gated K ctx"
    and "mpv_wait_event ctx timeout env = Some (Inr (ctx', freed))"
  shows "event_id (cur_event ctx') \<noteq> K \<and> mask_gated K ctx'"
proof -
  let ?ctx0 = "fst (wait_event_begin ctx)"
  have g0: "mask_gated K ?ctx0" using assms(5) by (simp add: mask_gated_def wait_event_begin_def)
  have e0: "event_id (cur_event ?ctx0) \<noteq> K"
    using assms(2) by (simp add: wait_event_begin_def zero_event_def)
  obtain ctx1 where l: "wait_event_loop ?ctx0 timeout env = Some (Inr ctx1)"
      and r: "ctx' = ctx1\<lparr>queued_wakeup := False\<rparr>"
    using assms(6)
    by (auto simp: mpv_wait_event_def wait_event_begin_def split: option.splits sum.splits)
  have "mask_gated K ctx1 \<and> event_id (cur_event ctx1) \<noteq> K"
    using wait_loop_gated [OF assms(1,3,4) g0 e0 l] .
  then show ?thesis using r by (simp add: mask_gated_def)
qed

text \<open>
  Claim C5, which the code does not satisfy as stated: a reply is delivered whatever the
  mask says. Below, a client clears its mask bit for \<open>MPV_EVENT_OK\<close> with
  \<^verbatim>\<open>mpv_request_event\<close> and reserves a reply; the status reply puts an OK event in its
  ring, and \<^verbatim>\<open>mpv_wait_event\<close> returns it.
\<close>


theorem mask_gate_counterexample:
  "\<not> bit (event_mask (fst (reserve_reply (fst (mpv_request_event (new_client_handle ''main'')
                                                 MPV_EVENT_OK 0)))))
          (event_num MPV_EVENT_OK)
   \<and> mp_client_status_reply
         (fst (reserve_reply (fst (mpv_request_event (new_client_handle ''main'')
                                     MPV_EVENT_OK 0)))) 1 0
       = Inr ((fst (reserve_reply (fst (mpv_request_event (new_client_handle ''main'')
                                          MPV_EVENT_OK 0))))
                \<lparr>wakeup_signals := 1,
                 events := \<lparr>ring_size = 24000,
                            ring_buf = [zero_event\<lparr>event_id := MPV_EVENT_OK\<rparr>]\<rparr>,
                 reserved_events := 0\<rparr>)
   \<and> mpv_wait_event
         ((fst (reserve_reply (fst (mpv_request_event (new_client_handle ''main'')
                                      MPV_EVENT_OK 0))))
            \<lparr>wakeup_signals := 1,
             events := \<lparr>ring_size = 24000,
                        ring_buf = [zero_event\<lparr>event_id := MPV_EVENT_OK\<rparr>]\<rparr>,
             reserved_events := 0\<rparr>) 0 []
       = Some (Inr ((fst (reserve_reply (fst (mpv_request_event (new_client_handle ''main'')
                                                MPV_EVENT_OK 0))))
                      \<lparr>cur_event := zero_event\<lparr>event_id := MPV_EVENT_OK\<rparr>,
                       wakeup_signals := 1,
                       events := \<lparr>ring_size = 24000, ring_buf = []\<rparr>,
                       reserved_events := 0\<rparr>, []))"
  by (simp add: mpv_request_event_def reserve_reply_def new_client_handle_def Let_def
                mp_client_status_reply_def send_reply_def mp_ring_write_def mp_ring_new_def
                mp_ring_available_def mp_ring_buffered_def sizeof_event_def wakeup_client_def
                mpv_wait_event_def wait_event_begin_def wait_event_body_def mp_ring_read_def
                talloc_steal_def zero_event_def bit_simps)

text \<open>
  Claim C5 as amended. Let the mask bit of a client for the kind \<open>K\<close> be 0. Then
  \<^verbatim>\<open>send_event\<close> of an event of kind \<open>K\<close> returns 0 and leaves the handle as it is,
  and so do a broadcast and a targeted send of kind \<open>K\<close> for that client. If moreover
  the ring holds no record of kind \<open>K\<close>, this stays so over every \<^verbatim>\<open>send_event\<close>,
  broadcast and targeted send of any kind and over every \<^verbatim>\<open>send_reply\<close> of another
  kind. And if \<open>K\<close> is not NONE, SHUTDOWN or LOG_MESSAGE, then no call of
  \<^verbatim>\<open>mpv_wait_event\<close> on the handle returns an event of kind \<open>K\<close>, whatever the other
  threads do during its waits, as long as they leave the bit clear, put no record of kind
  \<open>K\<close> in the ring and leave the scratch event alone; the same holds again after the
  call.
\<close>

theorem mask_gate_wait_stream:
  "(\<not> bit (event_mask ctx) (event_num K) \<longrightarrow>
      (\<forall>event. event_id event = K \<longrightarrow> send_event ctx event = Inr (ctx, 0))
      \<and> (\<forall>cs cs' freed n d.
            mp_client_broadcast_event cs K d = Inr (cs', freed) \<and> n < length cs \<and> cs ! n = ctx
              \<longrightarrow> cs' ! n = ctx)
      \<and> (\<forall>cs cs' r freed n d client_name.
            mp_client_send_event cs client_name K d = Inr (cs', r, freed)
              \<and> n < length cs \<and> cs ! n = ctx
              \<longrightarrow> cs' ! n = ctx))
   \<and> (mask_gated K ctx \<longrightarrow>
      (\<forall>event ctx' r. send_event ctx event = Inr (ctx', r) \<longrightarrow> mask_gated K ctx')
      \<and> (\<forall>cs cs' freed n event d.
            mp_client_broadcast_event cs event d = Inr (cs', freed) \<and> n < length cs
              \<and> cs ! n = ctx
              \<longrightarrow> mask_gated K (cs' ! n))
      \<and> (\<forall>cs cs' r freed n event d client_name.
            mp_client_send_event cs client_name event d = Inr (cs', r, freed)
              \<and> n < length cs \<and> cs ! n = ctx
              \<longrightarrow> mask_gated K (cs' ! n))
      \<and> (\<forall>event reply_id ctx'.
            event_id event \<noteq> K \<and> send_reply ctx reply_id event = Inr ctx'
              \<longrightarrow> mask_gated K ctx'))
   \<and> (mask_gated K ctx \<and> K \<noteq> MPV_EVENT_NONE \<and> K \<noteq> MPV_EVENT_SHUTDOWN
        \<and> K \<noteq> MPV_EVENT_LOG_MESSAGE \<longrightarrow>
      (\<forall>timeout env ctx' freed.
          (\<forall>other\<in>set env. \<forall>h. mask_gated K h
              \<longrightarrow> mask_gated K (other h) \<and> cur_event (other h) = cur_event h)
          \<and> mpv_wait_event ctx timeout env = Some (Inr (ctx', freed))
            \<longrightarrow> event_id (cur_event ctx') \<noteq> K \<and> mask_gated K ctx'))"
proof -
  have masked: "\<not> bit (event_mask ctx) (event_num K) \<longrightarrow>
      (\<forall>event. event_id event = K \<longrightarrow> send_event ctx event = Inr (ctx, 0))
      \<and> (\<forall>cs cs' freed n d.
            mp_client_broadcast_event cs K d = Inr (cs', freed) \<and> n < length cs \<and> cs ! n = ctx
              \<longrightarrow> cs' ! n = ctx)
      \<and> (\<forall>cs cs' r freed n d client_name.
            mp_client_send_event cs client_name K d = Inr (cs', r, freed)
              \<and> n < length cs \<and> cs ! n = ctx
              \<longrightarrow> cs' ! n = ctx)"
  proof
    assume off: "\<not> bit (event_mask ctx) (event_num K)"
    have one: "\<forall>event. event_id event = K \<longrightarrow> send_event ctx event = Inr (ctx, 0)"
      using off send_event_masked by blast
    have all: "\<forall>cs cs' freed n d.
             mp_client_broadcast_event cs K d = Inr (cs', freed) \<and> n < length cs \<and> cs ! n = ctx
               \<longrightarrow> cs' ! n = ctx"
    proof (intro allI impI)
      fix cs cs' freed n d
      assume a: "mp_client_broadcast_event cs K d = Inr (cs', freed) \<and> n < length cs
                   \<and> cs ! n = ctx"
      then have "broadcast_loop cs (zero_event\<lparr>event_id := K, data := d\<rparr>) = Inr cs'"
        by (auto simp: mp_client_broadcast_event_def Let_def split: sum.splits)
      from broadcast_loop_masked [OF this, of n] a off show "cs' ! n = ctx" by simp
    qed
    have named: "\<forall>cs cs' r freed n d client_name.
             mp_client_send_event cs client_name K d = Inr (cs', r, freed)
               \<and> n < length cs \<and> cs ! n = ctx
               \<longrightarrow> cs' ! n = ctx"
    proof (intro allI impI)
      fix cs cs' r freed n d client_name
      assume a: "mp_client_send_event cs client_name K d = Inr (cs', r, freed)
               \<and> n < length cs \<and> cs ! n = ctx"
      show "cs' ! n = ctx"
      proof (cases "find_client cs client_name")
        case None
        then show ?thesis using a by (auto simp: mp_client_send_event_def Let_def)
      next
        case (Some m)
        then obtain c' where
            c': "send_event (cs ! m) (zero_event\<lparr>event_id := K, data := d\<rparr>) = Inr (c', r)"
            and cs': "cs' = cs[m := c']"
          using a by (auto simp: mp_client_send_event_def Let_def split: sum.splits)
        show ?thesis
        proof (cases "m = n")
          case True
          then have "c' = ctx"
            using c' a off send_event_masked [of ctx "zero_event\<lparr>event_id := K, data := d\<rparr>"]
            by simp
          then show ?thesis using cs' True a by simp
        next
          case False
          then show ?thesis using cs' a by simp
        qed
      qed
    qed
    show "(\<forall>event. event_id event = K \<longrightarrow> send_event ctx event = Inr (ctx, 0))
      \<and> (\<forall>cs cs' freed n d.
            mp_client_broadcast_event cs K d = Inr (cs', freed) \<and> n < length cs \<and> cs ! n = ctx
              \<longrightarrow> cs' ! n = ctx)
      \<and> (\<forall>cs cs' r freed n d client_name.
            mp_client_send_event cs client_name K d = Inr (cs', r, freed)
              \<and> n < length cs \<and> cs ! n = ctx
              \<longrightarrow> cs' ! n = ctx)"
      by (rule conjI [OF one conjI [OF all named]])
  qed
  have kept: "mask_gated K ctx \<longrightarrow>
      (\<forall>event ctx' r. send_event ctx event = Inr (ctx', r) \<longrightarrow> mask_gated K ctx')
      \<and> (\<forall>cs cs' freed n event d.
            mp_client_broadcast_event cs event d = Inr (cs', freed) \<and> n < length cs
              \<and> cs ! n = ctx
              \<longrightarrow> mask_gated K (cs' ! n))
      \<and> (\<forall>cs cs' r freed n event d client_name.
            mp_client_send_event cs client_name event d = Inr (cs', r, freed)
              \<and> n < length cs \<and> cs ! n = ctx
              \<longrightarrow> mask_gated K (cs' ! n))
      \<and> (\<forall>event reply_id ctx'.
            event_id event \<noteq> K \<and> send_reply ctx reply_id event = Inr ctx'
              \<longrightarrow> mask_gated K ctx')"
  proof
    assume g: "mask_gated K ctx"
    have one: "\<forall>event ctx' r. send_event ctx event = Inr (ctx', r) \<longrightarrow> mask_gated K ctx'"
      using send_event_keeps_gate [OF g] by blast
    have all: "\<forall>cs cs' freed n event d.
            mp_client_broadcast_event cs event d = Inr (cs', freed) \<and> n < length cs
              \<and> cs ! n = ctx
              \<longrightarrow> mask_gated K (cs' ! n)"
    proof (intro allI impI)
      fix cs cs' freed n event d
      assume a: "mp_client_broadcast_event cs event d = Inr (cs', freed) \<and> n < length cs
                   \<and> cs ! n = ctx"
      then have "broadcast_loop cs (zero_event\<lparr>event_id := event, data := d\<rparr>) = Inr cs'"
        by (auto simp: mp_client_broadcast_event_def Let_def split: sum.splits)
      from broadcast_loop_keeps_gate [OF this, of n K] a g show "mask_gated K (cs' ! n)"
        by simp
    qed
    have named: "\<forall>cs cs' r freed n event d client_name.
            mp_client_send_event cs client_name event d = Inr (cs', r, freed)
              \<and> n < length cs \<and> cs ! n = ctx
              \<longrightarrow> mask_gated K (cs' ! n)"
    proof (intro allI impI)
      fix cs cs' r freed n event d client_name
      assume a: "mp_client_send_event cs client_name event d = Inr (cs', r, freed)
              \<and> n < length cs \<and> cs ! n = ctx"
      show "mask_gated K (cs' ! n)"
      proof (cases "find_client cs client_name")
        case None
        then show ?thesis using a g by (auto simp: mp_client_send_event_def Let_def)
      next
        case (Some m)
        then obtain c' where
            c': "send_event (cs ! m) (zero_event\<lparr>event_id := event, data := d\<rparr>) = Inr (c', r)"
            and cs': "cs' = cs[m := c']"
          using a by (auto simp: mp_client_send_event_def Let_def split: sum.splits)
        show ?thesis
        proof (cases "m = n")
          case True
          then have "mask_gated K c'"
            using c' a g send_event_keeps_gate [of K ctx _ c' r] by simp
          then show ?thesis using cs' True a by simp
        next
          case False
          then show ?thesis using cs' a g by simp
        qed
      qed
    qed
    have reply: "\<forall>event reply_id ctx'.
            event_id event \<noteq> K \<and> send_reply ctx reply_id event = Inr ctx'
              \<longrightarrow> mask_gated K ctx'"
      using send_reply_keeps_gate [OF g] by blast
    show "(\<forall>event ctx' r. send_event ctx event = Inr (ctx', r) \<longrightarrow> mask_gated K ctx')
      \<and> (\<forall>cs cs' freed n event d.
            mp_client_broadcast_event cs event d = Inr (cs', freed) \<and> n < length cs
              \<and> cs ! n = ctx
              \<longrightarrow> mask_gated K (cs' ! n))
      \<and> (\<forall>cs cs' r freed n event d client_name.
            mp_client_send_event cs client_name event d = Inr (cs', r, freed)
              \<and> n < length cs \<and> cs ! n = ctx
              \<longrightarrow> mask_gated K (cs' ! n))
      \<and> (\<forall>event reply_id ctx'.
            event_id event \<noteq> K \<and> send_reply ctx reply_id event = Inr ctx'
              \<longrightarrow> mask_gated K ctx')"
      by (rule conjI [OF one conjI [OF all conjI [OF named reply]]])
  qed
  have stream: "mask_gated K ctx \<and> K \<noteq> MPV_EVENT_NONE \<and> K \<noteq> MPV_EVENT_SHUTDOWN
        \<and> K \<noteq> MPV_EVENT_LOG_MESSAGE \<longrightarrow>
      (\<forall>timeout env ctx' freed.
          (\<forall>other\<in>set env. \<forall>h. mask_gated K h
              \<longrightarrow> mask_gated K (other h) \<and> cur_event (other h) = cur_event h)
          \<and> mpv_wait_event ctx timeout env = Some (Inr (ctx', freed))
            \<longrightarrow> event_id (cur_event ctx') \<noteq> K \<and> mask_gated K ctx')"
  proof (intro impI allI)
    fix timeout env ctx' freed
    assume a: "mask_gated K ctx \<and> K \<noteq> MPV_EVENT_NONE \<and> K \<noteq> MPV_EVENT_SHUTDOWN
        \<and> K \<noteq> MPV_EVENT_LOG_MESSAGE"
      and b: "(\<forall>other\<in>set env. \<forall>h. mask_gated K h
              \<longrightarrow> mask_gated K (other h) \<and> cur_event (other h) = cur_event h)
          \<and> mpv_wait_event ctx timeout env = Some (Inr (ctx', freed))"
    show "event_id (cur_event ctx') \<noteq> K \<and> mask_gated K ctx'"
    proof (rule wait_event_gated)
      show "\<forall>other\<in>set env. \<forall>h. mask_gated K h
              \<longrightarrow> mask_gated K (other h) \<and> cur_event (other h) = cur_event h"
        using b by (rule conjunct1)
      show "K \<noteq> MPV_EVENT_NONE" "K \<noteq> MPV_EVENT_SHUTDOWN" "K \<noteq> MPV_EVENT_LOG_MESSAGE"
           "mask_gated K ctx"
        using a by simp_all
      show "mpv_wait_event ctx timeout env = Some (Inr (ctx', freed))"
        using b by (rule conjunct2)
    qed
  qed
  show ?thesis
    by (rule conjI [OF masked conjI [OF kept stream]])
qed

theorem mask_gate_wait_stream_witness:
  "mask_gated MPV_EVENT_TICK (new_client_handle ''main'')
   \<and> send_event (new_client_handle ''main'') (zero_event\<lparr>event_id := MPV_EVENT_TICK\<rparr>)
       = Inr (new_client_handle ''main'', 0)
   \<and> mp_client_broadcast_event [new_client_handle ''main''] MPV_EVENT_TICK (Opaque 7)
       = Inr ([new_client_handle ''main''], [Opaque 7])
   \<and> mp_client_send_event [new_client_handle ''main''] ''main'' MPV_EVENT_TICK (Opaque 7)
       = Inr ([new_client_handle ''main''], 0, [])
   \<and> (\<exists>ctx'. mpv_wait_event (new_client_handle ''main'') 1
                 [sent_by_other (zero_event\<lparr>event_id := MPV_EVENT_TICK\<rparr>),
                  sent_by_other (zero_event\<lparr>event_id := MPV_EVENT_IDLE\<rparr>)]
               = Some (Inr (ctx', []))
          \<and> cur_event ctx' = zero_event\<lparr>event_id := MPV_EVENT_IDLE\<rparr>
          \<and> event_id (cur_event ctx') \<noteq> MPV_EVENT_TICK
          \<and> mask_gated MPV_EVENT_TICK ctx')"
proof -
  let ?h = "new_client_handle ''main''"
  let ?tick = "zero_event\<lparr>event_id := MPV_EVENT_TICK\<rparr>"
  let ?idle = "zero_event\<lparr>event_id := MPV_EVENT_IDLE\<rparr>"
  let ?env = "[sent_by_other ?tick, sent_by_other ?idle]"
  have off: "\<not> bit (event_mask ?h) (event_num MPV_EVENT_TICK)"
    by (simp add: new_client_handle_def bit_simps)
  have gated: "mask_gated MPV_EVENT_TICK ?h"
    using off by (simp add: mask_gated_def new_client_handle_def mp_ring_new_def)
  note inst = mask_gate_wait_stream [of ?h MPV_EVENT_TICK]
  note gate = mp [OF conjunct1 [OF inst] off]
  note g1 = conjunct1 [OF gate]
  note g2 = conjunct1 [OF conjunct2 [OF gate]]
  have one: "send_event ?h ?tick = Inr (?h, 0)"
    using g1 by simp
  have "\<exists>cs'. mp_client_broadcast_event [?h] MPV_EVENT_TICK (Opaque 7)
                 = Inr (cs', talloc_free (Opaque 7))"
    using broadcast_loop_returns [of "[?h]" "zero_event\<lparr>event_id := MPV_EVENT_TICK, data := Opaque 7\<rparr>"]
          handle_inv_created [of "''main''"]
    by (auto simp: mp_client_broadcast_event_def Let_def)
  then obtain cs' where cs': "mp_client_broadcast_event [?h] MPV_EVENT_TICK (Opaque 7)
                 = Inr (cs', [Opaque 7])"
    by (auto simp: talloc_free_def)
  then have "broadcast_loop [?h] (zero_event\<lparr>event_id := MPV_EVENT_TICK, data := Opaque 7\<rparr>)
               = Inr cs'"
    by (auto simp: mp_client_broadcast_event_def Let_def split: sum.splits)
  then have len: "length cs' = 1"
    using broadcast_loop_length by fastforce
  have "cs' ! 0 = ?h"
    using g2 [rule_format, where cs = "[?h]" and cs' = cs' and n = 0 and d = "Opaque 7"
                and freed = "[Opaque 7]"] cs'
    by simp
  then have "cs' = [?h]" using len by (cases cs') simp_all
  then have all: "mp_client_broadcast_event [?h] MPV_EVENT_TICK (Opaque 7)
       = Inr ([?h], [Opaque 7])"
    using cs' by simp
  have named: "mp_client_send_event [?h] ''main'' MPV_EVENT_TICK (Opaque 7) = Inr ([?h], 0, [])"
    using off send_event_masked [of ?h "zero_event\<lparr>event_id := MPV_EVENT_TICK, data := Opaque 7\<rparr>"]
    by (simp add: mp_client_send_event_def Let_def)
  have dropped: "sent_by_other ?tick (fst (wait_event_begin ?h)) = fst (wait_event_begin ?h)"
    by (simp add: sent_by_other_def send_event_def wait_event_begin_def new_client_handle_def
                  mask_bit_test bit_simps)
  have run: "mpv_wait_event ?h 1 ?env
               = Some (Inr (?h\<lparr>cur_event := ?idle, wakeup_signals := 1\<rparr>, []))"
    by (simp add: mpv_wait_event_def wait_event_begin_def wait_event_body_def
                  sent_by_other_def send_event_def wakeup_client_def new_client_handle_def
                  mp_ring_new_def mp_ring_write_def mp_ring_read_def mp_ring_available_def
                  mp_ring_buffered_def sizeof_event_def talloc_steal_def zero_event_def
                  Let_def bit_simps)
  have env: "\<forall>other\<in>set ?env. \<forall>h. mask_gated MPV_EVENT_TICK h
              \<longrightarrow> mask_gated MPV_EVENT_TICK (other h) \<and> cur_event (other h) = cur_event h"
    using sent_by_other_keeps_gate by simp
  have hyp: "mask_gated MPV_EVENT_TICK ?h \<and> MPV_EVENT_TICK \<noteq> MPV_EVENT_NONE
               \<and> MPV_EVENT_TICK \<noteq> MPV_EVENT_SHUTDOWN \<and> MPV_EVENT_TICK \<noteq> MPV_EVENT_LOG_MESSAGE"
    using gated by simp
  note stream = mp [OF conjunct2 [OF conjunct2 [OF inst]] hyp]
  have after: "event_id (cur_event (?h\<lparr>cur_event := ?idle, wakeup_signals := 1\<rparr>)) \<noteq> MPV_EVENT_TICK
                 \<and> mask_gated MPV_EVENT_TICK (?h\<lparr>cur_event := ?idle, wakeup_signals := 1\<rparr>)"
    by (rule stream [rule_format, where env = ?env and timeout = 1 and freed = "[]"])
       (rule conjI [OF env run])
  have last: "\<exists>ctx'. mpv_wait_event ?h 1 ?env = Some (Inr (ctx', []))
          \<and> cur_event ctx' = ?idle
          \<and> event_id (cur_event ctx') \<noteq> MPV_EVENT_TICK
          \<and> mask_gated MPV_EVENT_TICK ctx'"
    using run after by (intro exI [of _ "?h\<lparr>cur_event := ?idle, wakeup_signals := 1\<rparr>"]) simp
  show ?thesis
    by (rule conjI [OF gated conjI [OF one conjI [OF all conjI [OF named last]]]])
qed

section \<open>Errors at submission\<close>

text \<open>
  Claim C6. While the engine is not initialised, \<^verbatim>\<open>mpv_command\<close>,
  \<^verbatim>\<open>mpv_command_string\<close>, \<^verbatim>\<open>mpv_set_property\<close>, \<^verbatim>\<open>mpv_get_property\<close> and their
  asynchronous variants return \<open>MPV_ERROR_UNINITIALIZED\<close>, which is \<open>-7\<close>; once it is
  initialised, \<^verbatim>\<open>mpv_set_property\<close> and \<^verbatim>\<open>mpv_set_property_async\<close> return
  \<open>MPV_ERROR_INVALID_PARAMETER\<close>, which is \<open>-2\<close>, for a format other than
  \<open>MPV_FORMAT_STRING\<close>. In all these cases the state is the one before the call: the
  rings, the \<open>reserved_events\<close> and the reply-ID counters of all clients, and the
  dispatch queue, so that no request is left to be answered.
\<close>

theorem submission_errors_leave_state:
  "(\<not> initialized mpctx \<longrightarrow>
      MPV_ERROR_UNINITIALIZED = - 7
      \<and> mpv_command mpctx c cmd = Inr (mpctx, MPV_ERROR_UNINITIALIZED)
      \<and> mpv_command_string mpctx c cmd = Inr (mpctx, MPV_ERROR_UNINITIALIZED)
      \<and> mpv_command_async mpctx c cmd = Inr (mpctx, MPV_ERROR_UNINITIALIZED)
      \<and> mpv_set_property mpctx c nm format d = Inr (mpctx, MPV_ERROR_UNINITIALIZED)
      \<and> mpv_set_property_async mpctx c nm format d = Inr (mpctx, MPV_ERROR_UNINITIALIZED)
      \<and> mpv_get_property mpctx c nm format has_data
          = Inr (mpctx, MPV_ERROR_UNINITIALIZED, None)
      \<and> mpv_get_property_async mpctx c nm format = Inr (mpctx, MPV_ERROR_UNINITIALIZED))
   \<and> (initialized mpctx \<and> format \<noteq> MPV_FORMAT_STRING \<longrightarrow>
      MPV_ERROR_INVALID_PARAMETER = - 2
      \<and> mpv_set_property mpctx c nm format d = Inr (mpctx, MPV_ERROR_INVALID_PARAMETER)
      \<and> mpv_set_property_async mpctx c nm format d
          = Inr (mpctx, MPV_ERROR_INVALID_PARAMETER))"
  by (simp add: mpv_command_def mpv_command_string_def run_client_command_def
                mpv_command_async_def mpv_set_property_def mpv_set_property_async_def
                mpv_get_property_def mpv_get_property_async_def
                MPV_ERROR_UNINITIALIZED_def MPV_ERROR_INVALID_PARAMETER_def)

theorem submission_errors_leave_state_witness:
  "mpv_command_async
     \<lparr>initialized = False, clients = [new_client_handle ''main''], dispatch = [],
      property_do = (\<lambda>nm cmd d. (M_PROPERTY_OK, None))\<rparr> 0 (Some [''loadfile'', ''x''])
     = Inr (\<lparr>initialized = False, clients = [new_client_handle ''main''], dispatch = [],
             property_do = (\<lambda>nm cmd d. (M_PROPERTY_OK, None))\<rparr>, - 7)
   \<and> mpv_get_property
     \<lparr>initialized = False, clients = [new_client_handle ''main''], dispatch = [],
      property_do = (\<lambda>nm cmd d. (M_PROPERTY_OK, None))\<rparr> 0 ''volume'' MPV_FORMAT_STRING True
     = Inr (\<lparr>initialized = False, clients = [new_client_handle ''main''], dispatch = [],
             property_do = (\<lambda>nm cmd d. (M_PROPERTY_OK, None))\<rparr>, - 7, None)
   \<and> mpv_set_property_async
     \<lparr>initialized = True, clients = [new_client_handle ''main''], dispatch = [],
      property_do = (\<lambda>nm cmd d. (M_PROPERTY_OK, None))\<rparr> 0 ''volume'' MPV_FORMAT_OSD_STRING
       (Some ''50'')
     = Inr (\<lparr>initialized = True, clients = [new_client_handle ''main''], dispatch = [],
             property_do = (\<lambda>nm cmd d. (M_PROPERTY_OK, None))\<rparr>, - 2)"
proof -
  let ?off = "\<lparr>initialized = False, clients = [new_client_handle ''main''], dispatch = [],
      property_do = (\<lambda>nm cmd d. (M_PROPERTY_OK, None))\<rparr>"
  let ?on = "\<lparr>initialized = True, clients = [new_client_handle ''main''], dispatch = [],
      property_do = (\<lambda>nm cmd d. (M_PROPERTY_OK, None))\<rparr>"
  have a: "mpv_command_async ?off 0 (Some [''loadfile'', ''x'']) = Inr (?off, - 7)"
    using submission_errors_leave_state
            [of ?off 0 "Some [''loadfile'', ''x'']" "''volume''" MPV_FORMAT_STRING None True]
    by simp
  have b: "mpv_get_property ?off 0 ''volume'' MPV_FORMAT_STRING True = Inr (?off, - 7, None)"
    using submission_errors_leave_state
            [of ?off 0 "Some [''loadfile'', ''x'']" "''volume''" MPV_FORMAT_STRING None True]
    by simp
  have c: "mpv_set_property_async ?on 0 ''volume'' MPV_FORMAT_OSD_STRING (Some ''50'')
             = Inr (?on, - 2)"
    using submission_errors_leave_state
            [of ?on 0 None "''volume''" MPV_FORMAT_OSD_STRING "Some ''50''" True]
    by simp
  show ?thesis using a b c by simp
qed

section \<open>Replies to asynchronous requests\<close>

lemmas handle_eval =
  new_client_handle_def reserve_reply_def send_reply_def send_error_reply_def
  mp_client_status_reply_def wakeup_client_def mp_ring_new_def mp_ring_write_def
  mp_ring_read_def mp_ring_available_def mp_ring_buffered_def sizeof_event_def
  mpv_wait_event_def wait_event_begin_def wait_event_body_def talloc_steal_def
  zero_event_def Let_def

lemmas request_eval =
  mpv_command_async_def mpv_get_property_async_def run_async_def
  mp_dispatch_enqueue_autofree_def mp_dispatch_queue_process_def cmd_fn_def
  getproperty_fn_def run_command_def with_client_def

text \<open>
  Claim C1, at an input where the code does not do what the claim says. On an initialised
  engine with the one client "main", \<^verbatim>\<open>mpv_command_async\<close> returns the reply ID 1 and
  queues the request; the engine runs it, and \<^verbatim>\<open>mp_client_status_reply\<close> puts the OK
  event in the client's ring; \<^verbatim>\<open>mpv_wait_event\<close> returns that event, whose
  \<open>in_reply_to\<close> is 0 and not 1: \<^verbatim>\<open>send_reply\<close> never stores its \<open>reply_id\<close>.
\<close>

theorem command_reply_in_reply_to_zero:
  "mpv_command_async
     \<lparr>initialized = True, clients = [new_client_handle ''main''], dispatch = [],
      property_do = (\<lambda>nm cmd d. (M_PROPERTY_OK, None))\<rparr> 0 (Some [''loadfile'', ''x''])
     = Inr (\<lparr>initialized = True,
             clients = [(new_client_handle ''main'')\<lparr>alloc_reply_id := 1, reserved_events := 1\<rparr>],
             dispatch = [Cmd_request [''loadfile'', ''x''] (Some 0) 1],
             property_do = (\<lambda>nm cmd d. (M_PROPERTY_OK, None))\<rparr>, 1)
   \<and> mp_dispatch_queue_process
       \<lparr>initialized = True,
        clients = [(new_client_handle ''main'')\<lparr>alloc_reply_id := 1, reserved_events := 1\<rparr>],
        dispatch = [Cmd_request [''loadfile'', ''x''] (Some 0) 1],
        property_do = (\<lambda>nm cmd d. (M_PROPERTY_OK, None))\<rparr>
     = Inr \<lparr>initialized = True,
            clients = [(new_client_handle ''main'')
                         \<lparr>wakeup_signals := 1, alloc_reply_id := 1,
                          events := \<lparr>ring_size = 24000,
                                     ring_buf = [\<lparr>in_reply_to = 0, event_id = MPV_EVENT_OK,
                                                  error = 0, data = NULL\<rparr>]\<rparr>\<rparr>],
            dispatch = [],
            property_do = (\<lambda>nm cmd d. (M_PROPERTY_OK, None))\<rparr>
   \<and> mpv_wait_event
       ((new_client_handle ''main'')
          \<lparr>wakeup_signals := 1, alloc_reply_id := 1,
           events := \<lparr>ring_size = 24000,
                      ring_buf = [\<lparr>in_reply_to = 0, event_id = MPV_EVENT_OK,
                                   error = 0, data = NULL\<rparr>]\<rparr>\<rparr>) 0 []
     = Some (Inr ((new_client_handle ''main'')
                    \<lparr>cur_event := \<lparr>in_reply_to = 0, event_id = MPV_EVENT_OK,
                                    error = 0, data = NULL\<rparr>,
                     wakeup_signals := 1, alloc_reply_id := 1\<rparr>, []))"
  by (simp add: handle_eval request_eval)

text \<open>
  Claim C8, at an input where the code does not do what the claim says. The request of
  \<^verbatim>\<open>mpv_get_property_async\<close> gets the reply ID 1, and the PROPERTY event sent in reply
  to it carries \<open>in_reply_to = 0\<close>, the value kept for events that are no replies.
\<close>

theorem property_reply_in_reply_to_zero:
  "mpv_get_property_async
     \<lparr>initialized = True, clients = [new_client_handle ''main''], dispatch = [],
      property_do = (\<lambda>nm cmd d. (M_PROPERTY_OK, Some ''50''))\<rparr> 0 ''volume'' MPV_FORMAT_STRING
     = Inr (\<lparr>initialized = True,
             clients = [(new_client_handle ''main'')\<lparr>alloc_reply_id := 1, reserved_events := 1\<rparr>],
             dispatch = [Getproperty_request ''volume'' MPV_FORMAT_STRING False (Some 0) 1],
             property_do = (\<lambda>nm cmd d. (M_PROPERTY_OK, Some ''50''))\<rparr>, 1)
   \<and> mp_dispatch_queue_process
       \<lparr>initialized = True,
        clients = [(new_client_handle ''main'')\<lparr>alloc_reply_id := 1, reserved_events := 1\<rparr>],
        dispatch = [Getproperty_request ''volume'' MPV_FORMAT_STRING False (Some 0) 1],
        property_do = (\<lambda>nm cmd d. (M_PROPERTY_OK, Some ''50''))\<rparr>
     = Inr \<lparr>initialized = True,
            clients = [(new_client_handle ''main'')
                         \<lparr>wakeup_signals := 1, alloc_reply_id := 1,
                          events := \<lparr>ring_size = 24000,
                                     ring_buf = [\<lparr>in_reply_to = 0,
                                                  event_id = MPV_EVENT_PROPERTY,
                                                  error = 0,
                                                  data = Event_property ''volume''
                                                           MPV_FORMAT_STRING
                                                           (Some ''50'')\<rparr>]\<rparr>\<rparr>],
            dispatch = [],
            property_do = (\<lambda>nm cmd d. (M_PROPERTY_OK, Some ''50''))\<rparr>"
  by (simp add: handle_eval request_eval)

end
